theory Spec2Isabelle
  imports
    Main
    "HOL-Library.Word"
    "HOL-Library.Finite_Map"
    "HOL-Library.Char_ord"
    "HOL-Library.List_Lexorder"
    "HOL-Library.Monad_Syntax"
begin

unbundle bit_operations_syntax

section \<open>Data model of the asset-management chaincode\<close>

text \<open>
  The contract of \<^verbatim>\<open>chaincode/asset-management/chaincode.go\<close> stores one JSON document
  per subscriber in the world state of a Fabric ledger. Go strings and byte slices are
  byte sequences, hence \<open>string\<close>; \<^verbatim>\<open>int64\<close> is a 64-bit word read with \<open>sint\<close>.
\<close>

type_synonym bytes = string
type_synonym int64 = "64 word"

record Account =
  DEALERID :: string
  MSISDN :: string
  MPIN :: string
  BALANCE :: int64
  STATUS :: string
  TRANSAMOUNT :: int64
  TRANSTYPE :: string
  REMARKS :: string

text \<open>\<^verbatim>\<open>Value *Account\<close> is a pointer that stays nil when no snapshot is attached.\<close>

record History =
  TxID :: string
  Value :: "Account option"
  IsDelete :: bool
  Timestamp :: int64

subsection \<open>Errors\<close>

text \<open>
  The contract returns three kinds of error value: the two \<^verbatim>\<open>errors.New\<close> strings, the
  \<^verbatim>\<open>*strconv.NumError\<close> of a failed \<^verbatim>\<open>ParseInt\<close>, and whatever the JSON package or the
  stub hands back, passed on unchanged. The constructor records where an error came from.
\<close>

datatype num_err = ErrSyntax | ErrRange

datatype error =
    ErrorString string
  | NumError string string num_err
  | JSONError string
  | StubError string

definition AlreadyExists :: error where
  "AlreadyExists = ErrorString ''asset exists''"

definition NotFound :: error where
  "NotFound = ErrorString ''not found''"

fun InvalidAmount :: "error \<Rightarrow> bool" where
  "InvalidAmount (NumError f n e) = True"
| "InvalidAmount _ = False"

section \<open>strconv.ParseInt(s, 10, 64)\<close>

text \<open>
  The two calls of the contract fix base 10 and bit size 64. \<open>ParseUint\<close> returns its value
  together with the error, as in Go, because \<open>ParseInt\<close> goes on with the value of a range
  error; of that error only the kind is kept, since \<open>ParseInt\<close> overwrites the function name
  and the input string. \<^verbatim>\<open>uint64\<close> is a \<open>nat\<close> with the wrap-around of the one addition
  written out.
\<close>

definition syntaxError :: "string \<Rightarrow> string \<Rightarrow> error" where
  "syntaxError fn str = NumError fn str ErrSyntax"

definition rangeError :: "string \<Rightarrow> string \<Rightarrow> error" where
  "rangeError fn str = NumError fn str ErrRange"

definition byte :: "char \<Rightarrow> nat" where
  "byte c = of_char c"

definition lower :: "char \<Rightarrow> nat" where
  "lower c = byte c OR 32"

definition maxUint64 :: nat where
  "maxUint64 = 2 ^ 64 - 1"

text \<open>The \<^verbatim>\<open>switch\<close> of the digit loop; the underscore case needs base 0 and never applies.\<close>

definition digit_val :: "char \<Rightarrow> nat option" where
  "digit_val c =
     (if byte (CHR ''0'') \<le> byte c \<and> byte c \<le> byte (CHR ''9'')
        then Some (byte c - byte (CHR ''0''))
      else if byte (CHR ''a'') \<le> lower c \<and> lower c \<le> byte (CHR ''z'')
        then Some (lower c - byte (CHR ''a'') + 10)
      else None)"

fun ParseUint_loop :: "string \<Rightarrow> nat \<Rightarrow> nat \<times> num_err option" where
  "ParseUint_loop [] n = (n, None)"
| "ParseUint_loop (c # cs) n =
     (case digit_val c of
        None \<Rightarrow> (0, Some ErrSyntax)
      | Some d \<Rightarrow>
          if d \<ge> 10 then (0, Some ErrSyntax)
          else if n \<ge> maxUint64 div 10 + 1 then (maxUint64, Some ErrRange)
          else
            let n' = n * 10;
                n1 = (n' + d) mod 2 ^ 64
            in if n1 < n' \<or> n1 > maxUint64 then (maxUint64, Some ErrRange)
               else ParseUint_loop cs n1)"

definition ParseUint :: "string \<Rightarrow> nat \<times> num_err option" where
  "ParseUint s = (if s = [] then (0, Some ErrSyntax) else ParseUint_loop s 0)"

definition ParseInt :: "string \<Rightarrow> error + int64" where
  "ParseInt s0 =
     (if s0 = [] then Inl (syntaxError ''ParseInt'' s0)
      else
        let neg = (hd s0 = CHR ''-'');
            s = (if hd s0 = CHR ''+'' \<or> hd s0 = CHR ''-'' then tl s0 else s0);
            (un, err) = ParseUint s;
            cutoff = (2::nat) ^ 63
        in if err \<noteq> None \<and> err \<noteq> Some ErrRange then Inl (NumError ''ParseInt'' s0 (the err))
           else if \<not> neg \<and> un \<ge> cutoff then Inl (rangeError ''ParseInt'' s0)
           else if neg \<and> un > cutoff then Inl (rangeError ''ParseInt'' s0)
           else Inr (if neg then - word_of_nat un else word_of_nat un))"

section \<open>The ledger behind the chaincode stub\<close>

text \<open>
  The ledger is outside the repository. It is the key-value world state plus the change
  log, which the history iterator of a key replays in commit order, oldest entry first.
  Every write adds one \<open>KeyModification\<close> stamped with the identifier and the timestamp of
  its transaction. Stub calls return Go's \<^verbatim>\<open>(value, error)\<close>. \<open>PutState\<close> refuses the empty
  key, as the shim does, and writes nothing then; every other call is answered.
  The fields of the two protobuf messages carry the prefixes \<open>km_\<close> and \<open>kv_\<close>, which keeps
  them apart from the fields of \<open>History\<close>.
\<close>

record timestamp =
  seconds :: int64
  nanos :: "32 word"

record KeyModification =
  km_TxId :: string
  km_Value :: "bytes option"
  km_Timestamp :: "timestamp option"
  km_IsDelete :: bool

record KV =
  kv_Key :: string
  kv_Value :: bytes

record ledger =
  world :: "(string, bytes) fmap"
  changelog :: "(string \<times> KeyModification) list"

record txctx =
  GetTxID :: string
  GetTxTimestamp :: timestamp

definition empty_ledger :: ledger where
  "empty_ledger = \<lparr>world = fmempty, changelog = []\<rparr>"

text \<open>The nil-safe getter of the protobuf timestamp.\<close>

fun GetSeconds :: "timestamp option \<Rightarrow> int64" where
  "GetSeconds None = 0"
| "GetSeconds (Some t) = seconds t"

definition GetState :: "ledger \<Rightarrow> string \<Rightarrow> error + bytes option" where
  "GetState l key = Inr (fmlookup (world l) key)"

definition PutState :: "txctx \<Rightarrow> ledger \<Rightarrow> string \<Rightarrow> bytes \<Rightarrow> ledger \<times> error option" where
  "PutState ctx l key val =
     (if key = [] then (l, Some (StubError ''key must not be an empty string''))
      else
        (\<lparr>world = fmupd key val (world l),
          changelog = changelog l @
            [(key, \<lparr>km_TxId = GetTxID ctx, km_Value = Some val,
                    km_Timestamp = Some (GetTxTimestamp ctx), km_IsDelete = False\<rparr>)]\<rparr>,
         None))"

definition DelState :: "txctx \<Rightarrow> ledger \<Rightarrow> string \<Rightarrow> ledger \<times> error option" where
  "DelState ctx l key =
     (\<lparr>world = fmdrop key (world l),
       changelog = changelog l @
         [(key, \<lparr>km_TxId = GetTxID ctx, km_Value = None,
                 km_Timestamp = Some (GetTxTimestamp ctx), km_IsDelete = True\<rparr>)]\<rparr>,
      None)"

text \<open>
  A range query walks the keys in byte-wise lexical order, from \<open>startKey\<close> (inclusive) to
  \<open>endKey\<close> (exclusive); an empty bound is open. The iterator is the list of what its
  \<^verbatim>\<open>Next\<close> calls return.
\<close>

definition in_range :: "string \<Rightarrow> string \<Rightarrow> string \<Rightarrow> bool" where
  "in_range startKey endKey k \<longleftrightarrow> startKey \<le> k \<and> (endKey = [] \<or> k < endKey)"

definition GetStateByRange :: "ledger \<Rightarrow> string \<Rightarrow> string \<Rightarrow> error + (error + KV) list" where
  "GetStateByRange l startKey endKey =
     Inr (map (\<lambda>(k, v). Inr \<lparr>kv_Key = k, kv_Value = v\<rparr>)
            (filter (\<lambda>(k, v). in_range startKey endKey k) (sorted_list_of_fmap (world l))))"

definition GetHistoryForKey :: "ledger \<Rightarrow> string \<Rightarrow> error + (error + KeyModification) list" where
  "GetHistoryForKey l key =
     Inr (map (\<lambda>(k, m). Inr m) (filter (\<lambda>(k, m). k = key) (changelog l)))"

section \<open>encoding/json\<close>

text \<open>
  \<^verbatim>\<open>json.Marshal\<close> and \<^verbatim>\<open>json.Unmarshal\<close> (into a zero \<open>Account\<close>) are library calls; the
  contract takes them as a pair of functions, each returning a value or an error message.
  \<open>encoding_json\<close>, defined below, is the pair the Go package provides.
\<close>

record codec =
  Marshal :: "Account \<Rightarrow> string + bytes"
  Unmarshal :: "bytes \<Rightarrow> string + Account"


subsection \<open>unicode/utf8\<close>

text \<open>
  \<^verbatim>\<open>utf8.DecodeRuneInString\<close> returns the first rune of a string and its width in bytes, or
  \<open>(RuneError, 1)\<close> where the bytes are no valid encoding. \<^verbatim>\<open>utf8.AppendRune\<close> is its inverse
  on valid runes. Masks and shifts are written as \<open>mod\<close>, \<open>div\<close> and products on \<open>nat\<close>.
\<close>

definition RuneError :: nat where "RuneError = 65533"

definition cont :: "char \<Rightarrow> bool" where
  "cont c \<longleftrightarrow> 128 \<le> byte c \<and> byte c \<le> 191"

fun DecodeRuneInString :: "string \<Rightarrow> nat \<times> nat" where
  "DecodeRuneInString [] = (RuneError, 0)"
| "DecodeRuneInString (c0 # cs) =
     (let b0 = byte c0 in
      if b0 < 128 then (b0, 1)
      else if 194 \<le> b0 \<and> b0 \<le> 223 then
        (case cs of
           c1 # _ \<Rightarrow>
             if cont c1 then ((b0 mod 32) * 64 + byte c1 mod 64, 2) else (RuneError, 1)
         | _ \<Rightarrow> (RuneError, 1))
      else if 224 \<le> b0 \<and> b0 \<le> 239 then
        (case cs of
           c1 # c2 # _ \<Rightarrow>
             if (if b0 = 224 then 160 else 128) \<le> byte c1 \<and>
                byte c1 \<le> (if b0 = 237 then 159 else 191) \<and> cont c2
             then ((b0 mod 16) * 4096 + (byte c1 mod 64) * 64 + byte c2 mod 64, 3)
             else (RuneError, 1)
         | _ \<Rightarrow> (RuneError, 1))
      else if 240 \<le> b0 \<and> b0 \<le> 244 then
        (case cs of
           c1 # c2 # c3 # _ \<Rightarrow>
             if (if b0 = 240 then 144 else 128) \<le> byte c1 \<and>
                byte c1 \<le> (if b0 = 244 then 143 else 191) \<and> cont c2 \<and> cont c3
             then ((b0 mod 8) * 262144 + (byte c1 mod 64) * 4096 + (byte c2 mod 64) * 64 +
                     byte c3 mod 64, 4)
             else (RuneError, 1)
         | _ \<Rightarrow> (RuneError, 1))
      else (RuneError, 1))"

definition chr :: "nat \<Rightarrow> char" where
  "chr n = char_of n"

definition EncodeRune :: "nat \<Rightarrow> string" where
  "EncodeRune r =
     (if r < 128 then [chr r]
      else if r < 2048 then [chr (192 + r div 64), chr (128 + r mod 64)]
      else if r > 1114111 \<or> (55296 \<le> r \<and> r \<le> 57343) then [chr 239, chr 191, chr 189]
      else if r < 65536 then
        [chr (224 + r div 4096), chr (128 + (r div 64) mod 64), chr (128 + r mod 64)]
      else
        [chr (240 + r div 262144), chr (128 + (r div 4096) mod 64),
         chr (128 + (r div 64) mod 64), chr (128 + r mod 64)])"

subsection \<open>String literals\<close>

text \<open>
  The encoder's \<^verbatim>\<open>appendString\<close>, with HTML escaping as \<^verbatim>\<open>json.Marshal\<close> has it: a byte that
  is no valid UTF-8 is written as the escape of U+FFFD. The decoder's \<^verbatim>\<open>unquote\<close> is
  \<open>unquote_loop\<close>, which starts behind the opening quote and returns the text and what
  follows the closing quote. \<open>to_valid_utf8\<close> replaces each invalid byte by U+FFFD, and
  \<open>ValidString\<close> is \<^verbatim>\<open>utf8.ValidString\<close>.
\<close>

definition hexchar :: "nat \<Rightarrow> char" where
  "hexchar n = ''0123456789abcdef'' ! n"

definition htmlSafe :: "char \<Rightarrow> bool" where
  "htmlSafe c \<longleftrightarrow>
     32 \<le> byte c \<and> byte c < 128 \<and> c \<notin> {CHR 0x22, CHR ''&'', CHR ''<'', CHR ''>'', CHR 0x5C}"

definition escape_byte :: "char \<Rightarrow> string" where
  "escape_byte c =
     (if c = CHR 0x5C \<or> c = CHR 0x22 then [CHR 0x5C, c]
      else if byte c = 8 then [CHR 0x5C, CHR ''b'']
      else if byte c = 12 then [CHR 0x5C, CHR ''f'']
      else if byte c = 10 then [CHR 0x5C, CHR ''n'']
      else if byte c = 13 then [CHR 0x5C, CHR ''r'']
      else if byte c = 9 then [CHR 0x5C, CHR ''t'']
      else [CHR 0x5C, CHR ''u'', CHR ''0'', CHR ''0'', hexchar (byte c div 16),
            hexchar (byte c mod 16)])"

fun escape_runes :: "string \<Rightarrow> string" where
  "escape_runes [] = []"
| "escape_runes (c # cs) =
     (if byte c < 128 then
        (if htmlSafe c then [c] else escape_byte c) @ escape_runes cs
      else
        (case DecodeRuneInString (c # cs) of
           (r, n) \<Rightarrow>
             if r = RuneError \<and> n = 1 then
               [CHR 0x5C, CHR ''u'', CHR ''f'', CHR ''f'', CHR ''f'', CHR ''d''] @ escape_runes cs
             else if r = 8232 \<or> r = 8233 then
               [CHR 0x5C, CHR ''u'', CHR ''2'', CHR ''0'', CHR ''2'', hexchar (r mod 16)] @
               escape_runes (drop (n - 1) cs)
             else c # take (n - 1) cs @ escape_runes (drop (n - 1) cs)))"

definition appendString :: "string \<Rightarrow> string" where
  "appendString s = CHR 0x22 # escape_runes s @ [CHR 0x22]"

fun to_valid_utf8 :: "string \<Rightarrow> string" where
  "to_valid_utf8 [] = []"
| "to_valid_utf8 (c # cs) =
     (case DecodeRuneInString (c # cs) of
        (r, n) \<Rightarrow> EncodeRune r @ to_valid_utf8 (drop (n - 1) cs))"

fun ValidString :: "string \<Rightarrow> bool" where
  "ValidString [] = True"
| "ValidString (c # cs) =
     (case DecodeRuneInString (c # cs) of
        (r, n) \<Rightarrow> \<not> (r = RuneError \<and> n = 1) \<and> ValidString (drop (n - 1) cs))"

definition hexval :: "char \<Rightarrow> nat option" where
  "hexval c =
     (let b = byte c in
      if 48 \<le> b \<and> b \<le> 57 then Some (b - 48)
      else if 97 \<le> b \<and> b \<le> 102 then Some (b - 97 + 10)
      else if 65 \<le> b \<and> b \<le> 70 then Some (b - 65 + 10)
      else None)"

fun getu4 :: "string \<Rightarrow> nat option" where
  "getu4 (c0 # c1 # h1 # h2 # h3 # h4 # _) =
     (if c0 \<noteq> CHR 0x5C \<or> c1 \<noteq> CHR ''u'' then None
      else
        (case (hexval h1, hexval h2, hexval h3, hexval h4) of
           (Some a, Some b, Some c, Some d) \<Rightarrow> Some (((a * 16 + b) * 16 + c) * 16 + d)
         | _ \<Rightarrow> None))"
| "getu4 _ = None"

definition emit :: "string \<Rightarrow> (string \<times> string) option \<Rightarrow> (string \<times> string) option" where
  "emit w res = (case res of None \<Rightarrow> None | Some (ws, rest) \<Rightarrow> Some (w @ ws, rest))"

function unquote_loop :: "string \<Rightarrow> (string \<times> string) option" where
  "unquote_loop [] = None"
| "unquote_loop (c # cs) =
     (if c = CHR 0x22 then Some ([], cs)
      else if c = CHR 0x5C then
        (case cs of
           [] \<Rightarrow> None
         | e # es \<Rightarrow>
             if e = CHR 0x22 \<or> e = CHR 0x5C \<or> e = CHR ''/'' then emit [e] (unquote_loop es)
             else if e = CHR ''b'' then emit [chr 8] (unquote_loop es)
             else if e = CHR ''f'' then emit [chr 12] (unquote_loop es)
             else if e = CHR ''n'' then emit [chr 10] (unquote_loop es)
             else if e = CHR ''r'' then emit [chr 13] (unquote_loop es)
             else if e = CHR ''t'' then emit [chr 9] (unquote_loop es)
             else if e = CHR ''u'' then
               (case getu4 (c # cs) of
                  None \<Rightarrow> None
                | Some rr \<Rightarrow>
                    if 55296 \<le> rr \<and> rr < 57344 then
                      (case getu4 (drop 4 es) of
                         None \<Rightarrow> emit (EncodeRune RuneError) (unquote_loop (drop 4 es))
                       | Some rr1 \<Rightarrow>
                           if rr < 56320 \<and> 56320 \<le> rr1 \<and> rr1 < 57344 then
                             emit (EncodeRune ((rr - 55296) * 1024 + (rr1 - 56320) + 65536))
                               (unquote_loop (drop 10 es))
                           else emit (EncodeRune RuneError) (unquote_loop (drop 4 es)))
                    else emit (EncodeRune rr) (unquote_loop (drop 4 es)))
             else None)
      else if byte c < 32 then None
      else if byte c < 128 then emit [c] (unquote_loop cs)
      else
        (case DecodeRuneInString (c # cs) of
           (rr, n) \<Rightarrow> emit (EncodeRune rr) (unquote_loop (drop (n - 1) cs))))"
  by pat_completeness auto
termination
  by (relation "measure length") auto


subsection \<open>Integers\<close>

text \<open>\<^verbatim>\<open>strconv.AppendInt(b, i, 10)\<close>: a minus sign for a negative value, then the decimal digits.\<close>

fun digits :: "nat \<Rightarrow> string" where
  "digits n = (if n < 10 then [chr (48 + n)] else digits (n div 10) @ [chr (48 + n mod 10)])"

declare digits.simps [simp del]

definition FormatInt :: "int64 \<Rightarrow> string" where
  "FormatInt i =
     (if sint i < 0 then CHR ''-'' # digits (nat (- sint i)) else digits (nat (sint i)))"

subsection \<open>Marshal\<close>

text \<open>
  The encoder writes the struct as one object, members in declaration order under their
  tag names, without white space, and never fails on this struct.
\<close>

definition Marshal_Account :: "Account \<Rightarrow> string + bytes" where
  \<open>Marshal_Account a =
     Inr (''{"DEALERID":'' @ appendString (DEALERID a) @
          '',"MSISDN":'' @ appendString (MSISDN a) @
          '',"MPIN":'' @ appendString (MPIN a) @
          '',"BALANCE":'' @ FormatInt (BALANCE a) @
          '',"STATUS":'' @ appendString (STATUS a) @
          '',"TRANSAMOUNT":'' @ FormatInt (TRANSAMOUNT a) @
          '',"TRANSTYPE":'' @ appendString (TRANSTYPE a) @
          '',"REMARKS":'' @ appendString (REMARKS a) @ ''}'')\<close>

subsection \<open>Unmarshal\<close>

text \<open>
  The decoder is modelled on the documents the contract stores, which are the ones the
  encoder writes: it reads the eight members in that order and without white space, and
  reports any other input as an error. \<^verbatim>\<open>encoding/json\<close> accepts more (white space, members
  in any order, unknown members, \<^verbatim>\<open>null\<close>); no document of that kind is ever written by the
  contract. String and number literals are read as the package reads them.
\<close>

fun literal :: "string \<Rightarrow> string \<Rightarrow> string option" where
  "literal [] s = Some s"
| "literal (p # ps) [] = None"
| "literal (p # ps) (c # cs) = (if p = c then literal ps cs else None)"

definition unquote :: "string \<Rightarrow> (string \<times> string) option" where
  "unquote s =
     (case s of
        [] \<Rightarrow> None
      | c # cs \<Rightarrow> if c = CHR 0x22 then unquote_loop cs else None)"

text \<open>
  A number literal runs as far as the characters of a JSON number do. An \<^verbatim>\<open>int64\<close> field
  takes it when it is a JSON integer (no leading zero, no fraction, no exponent) that
  \<open>ParseInt\<close> accepts.
\<close>

definition number_char :: "char \<Rightarrow> bool" where
  "number_char c \<longleftrightarrow> c \<in> set ''-+.eE0123456789''"

definition json_integer :: "string \<Rightarrow> bool" where
  "json_integer tok =
     (let ds = (case tok of [] \<Rightarrow> [] | c # cs \<Rightarrow> if c = CHR ''-'' then cs else tok)
      in ds \<noteq> [] \<and> list_all (\<lambda>c. 48 \<le> byte c \<and> byte c \<le> 57) ds \<and>
         (ds = ''0'' \<or> hd ds \<noteq> CHR ''0''))"

definition number :: "string \<Rightarrow> (int64 \<times> string) option" where
  "number s =
     (let tok = takeWhile number_char s
      in if json_integer tok then
           (case ParseInt tok of
              Inl err \<Rightarrow> None
            | Inr i \<Rightarrow> Some (i, dropWhile number_char s))
         else None)"

definition decode_object :: "string \<Rightarrow> Account option" where
  \<open>decode_object s0 =
     do {
       s \<leftarrow> literal ''{"DEALERID":'' s0;
       (dealerID, s) \<leftarrow> unquote s;
       s \<leftarrow> literal '',"MSISDN":'' s;
       (msisdn, s) \<leftarrow> unquote s;
       s \<leftarrow> literal '',"MPIN":'' s;
       (mpin, s) \<leftarrow> unquote s;
       s \<leftarrow> literal '',"BALANCE":'' s;
       (bal, s) \<leftarrow> number s;
       s \<leftarrow> literal '',"STATUS":'' s;
       (status, s) \<leftarrow> unquote s;
       s \<leftarrow> literal '',"TRANSAMOUNT":'' s;
       (tamt, s) \<leftarrow> number s;
       s \<leftarrow> literal '',"TRANSTYPE":'' s;
       (transType, s) \<leftarrow> unquote s;
       s \<leftarrow> literal '',"REMARKS":'' s;
       (remarks, s) \<leftarrow> unquote s;
       s \<leftarrow> literal ''}'' s;
       if s = [] then
         Some \<lparr>DEALERID = dealerID, MSISDN = msisdn, MPIN = mpin, BALANCE = bal,
               STATUS = status, TRANSAMOUNT = tamt, TRANSTYPE = transType, REMARKS = remarks\<rparr>
       else None
     }\<close>

definition Unmarshal_Account :: "bytes \<Rightarrow> string + Account" where
  "Unmarshal_Account b =
     (case decode_object b of
        None \<Rightarrow> Inl ''json: cannot unmarshal the document into Account''
      | Some a \<Rightarrow> Inr a)"

definition encoding_json :: codec where
  "encoding_json = \<lparr>Marshal = Marshal_Account, Unmarshal = Unmarshal_Account\<rparr>"

text \<open>What a record looks like after a trip through the encoder and the decoder.\<close>

definition coerced :: "Account \<Rightarrow> Account" where
  "coerced a =
     \<lparr>DEALERID = to_valid_utf8 (DEALERID a), MSISDN = to_valid_utf8 (MSISDN a),
      MPIN = to_valid_utf8 (MPIN a), BALANCE = BALANCE a, STATUS = to_valid_utf8 (STATUS a),
      TRANSAMOUNT = TRANSAMOUNT a, TRANSTYPE = to_valid_utf8 (TRANSTYPE a),
      REMARKS = to_valid_utf8 (REMARKS a)\<rparr>"

section \<open>The contract\<close>

definition exists :: "ledger \<Rightarrow> string \<Rightarrow> error + bool" where
  "exists l key =
     (case GetState l key of
        Inl err \<Rightarrow> Inl err
      | Inr b \<Rightarrow> Inr (b \<noteq> None))"

definition CreateAsset ::
  "codec \<Rightarrow> txctx \<Rightarrow> ledger \<Rightarrow> string \<Rightarrow> string \<Rightarrow> string \<Rightarrow> string \<Rightarrow> string \<Rightarrow> string \<Rightarrow>
   string \<Rightarrow> string \<Rightarrow> ledger \<times> error option" where
  "CreateAsset J ctx l dealerID msisdn mpin balance status transAmount transType remarks =
     (case exists l msisdn of
        Inl err \<Rightarrow> (l, Some err)
      | Inr ok \<Rightarrow>
          (if ok then (l, Some (ErrorString ''asset exists''))
           else
             (case ParseInt balance of
                Inl err \<Rightarrow> (l, Some err)
              | Inr bal \<Rightarrow>
                  (case ParseInt transAmount of
                     Inl err \<Rightarrow> (l, Some err)
                   | Inr tamt \<Rightarrow>
                       (let acc = \<lparr>DEALERID = dealerID, MSISDN = msisdn, MPIN = mpin,
                                   BALANCE = bal, STATUS = status, TRANSAMOUNT = tamt,
                                   TRANSTYPE = transType, REMARKS = remarks\<rparr>
                        in (case Marshal J acc of
                              Inl err \<Rightarrow> (l, Some (JSONError err))
                            | Inr raw \<Rightarrow> PutState ctx l msisdn raw))))))"

definition ReadAsset :: "codec \<Rightarrow> ledger \<Rightarrow> string \<Rightarrow> error + Account" where
  "ReadAsset J l msisdn =
     (case GetState l msisdn of
        Inl err \<Rightarrow> Inl err
      | Inr None \<Rightarrow> Inl (ErrorString ''not found'')
      | Inr (Some b) \<Rightarrow>
          (case Unmarshal J b of
             Inl err \<Rightarrow> Inl (JSONError err)
           | Inr acc \<Rightarrow> Inr acc))"

definition UpdateAsset ::
  "codec \<Rightarrow> txctx \<Rightarrow> ledger \<Rightarrow> string \<Rightarrow> string \<Rightarrow> string \<Rightarrow> string \<Rightarrow> string \<Rightarrow> string \<Rightarrow>
   string \<Rightarrow> string \<Rightarrow> ledger \<times> error option" where
  "UpdateAsset J ctx l dealerID msisdn mpin balance status transAmount transType remarks =
     (case exists l msisdn of
        Inl err \<Rightarrow> (l, Some err)
      | Inr ok \<Rightarrow>
          (if \<not> ok then (l, Some (ErrorString ''not found''))
           else
             (case ParseInt balance of
                Inl err \<Rightarrow> (l, Some err)
              | Inr bal \<Rightarrow>
                  (case ParseInt transAmount of
                     Inl err \<Rightarrow> (l, Some err)
                   | Inr tamt \<Rightarrow>
                       (let acc = \<lparr>DEALERID = dealerID, MSISDN = msisdn, MPIN = mpin,
                                   BALANCE = bal, STATUS = status, TRANSAMOUNT = tamt,
                                   TRANSTYPE = transType, REMARKS = remarks\<rparr>
                        in (case Marshal J acc of
                              Inl err \<Rightarrow> (l, Some (JSONError err))
                            | Inr raw \<Rightarrow> PutState ctx l msisdn raw))))))"

definition DeleteAsset :: "txctx \<Rightarrow> ledger \<Rightarrow> string \<Rightarrow> ledger \<times> error option" where
  "DeleteAsset ctx l msisdn =
     (case exists l msisdn of
        Inl err \<Rightarrow> (l, Some err)
      | Inr ok \<Rightarrow>
          (if \<not> ok then (l, Some (ErrorString ''not found''))
           else DelState ctx l msisdn))"

text \<open>The loop of \<open>GetAllAssets\<close>: \<open>out\<close> grows by one decoded record per iterator item.\<close>

fun GetAllAssets_loop :: "codec \<Rightarrow> (error + KV) list \<Rightarrow> Account list \<Rightarrow> error + Account list" where
  "GetAllAssets_loop J [] out = Inr out"
| "GetAllAssets_loop J (r # it) out =
     (case r of
        Inl err \<Rightarrow> Inl err
      | Inr kv \<Rightarrow>
          (case Unmarshal J (kv_Value kv) of
             Inl err \<Rightarrow> Inl (JSONError err)
           | Inr a \<Rightarrow> GetAllAssets_loop J it (out @ [a])))"

definition GetAllAssets :: "codec \<Rightarrow> ledger \<Rightarrow> error + Account list" where
  "GetAllAssets J l =
     (case GetStateByRange l [] [] of
        Inl err \<Rightarrow> Inl err
      | Inr it \<Rightarrow> GetAllAssets_loop J it [])"

text \<open>
  The body of the loop of \<open>GetAssetHistory\<close>: \<open>val\<close> stays nil unless the record has a
  value and is not a deletion, and only then is the value decoded.
\<close>

definition history_entry :: "codec \<Rightarrow> KeyModification \<Rightarrow> error + History" where
  "history_entry J rec =
     (if km_Value rec \<noteq> None \<and> \<not> km_IsDelete rec then
        (case Unmarshal J (the (km_Value rec)) of
           Inl err \<Rightarrow> Inl (JSONError err)
         | Inr a \<Rightarrow>
             Inr \<lparr>TxID = km_TxId rec, Value = Some a, IsDelete = km_IsDelete rec,
                  Timestamp = GetSeconds (km_Timestamp rec)\<rparr>)
      else
        Inr \<lparr>TxID = km_TxId rec, Value = None, IsDelete = km_IsDelete rec,
             Timestamp = GetSeconds (km_Timestamp rec)\<rparr>)"

fun GetAssetHistory_loop ::
  "codec \<Rightarrow> (error + KeyModification) list \<Rightarrow> History list \<Rightarrow> error + History list" where
  "GetAssetHistory_loop J [] h = Inr h"
| "GetAssetHistory_loop J (r # it) h =
     (case r of
        Inl err \<Rightarrow> Inl err
      | Inr rec \<Rightarrow>
          (case history_entry J rec of
             Inl err \<Rightarrow> Inl err
           | Inr e \<Rightarrow> GetAssetHistory_loop J it (h @ [e])))"

definition GetAssetHistory :: "codec \<Rightarrow> ledger \<Rightarrow> string \<Rightarrow> error + History list" where
  "GetAssetHistory J l msisdn =
     (case GetHistoryForKey l msisdn of
        Inl err \<Rightarrow> Inl err
      | Inr it \<Rightarrow> GetAssetHistory_loop J it [])"

section \<open>Transactions against the ledger\<close>

text \<open>
  The six operations the contract exposes, as the calls a client can submit. \<open>ledger_after\<close>
  is the ledger as the stub leaves it when the call returns; the three queries only read.
\<close>

datatype call =
    CallCreateAsset string string string string string string string string
  | CallReadAsset string
  | CallUpdateAsset string string string string string string string string
  | CallDeleteAsset string
  | CallGetAllAssets
  | CallGetAssetHistory string

fun ledger_after :: "codec \<Rightarrow> txctx \<Rightarrow> ledger \<Rightarrow> call \<Rightarrow> ledger" where
  "ledger_after J ctx l (CallCreateAsset d m p b s t y r) = fst (CreateAsset J ctx l d m p b s t y r)"
| "ledger_after J ctx l (CallReadAsset m) = l"
| "ledger_after J ctx l (CallUpdateAsset d m p b s t y r) = fst (UpdateAsset J ctx l d m p b s t y r)"
| "ledger_after J ctx l (CallDeleteAsset m) = fst (DeleteAsset ctx l m)"
| "ledger_after J ctx l CallGetAllAssets = l"
| "ledger_after J ctx l (CallGetAssetHistory m) = l"

text \<open>The subscriber a call names, if it names one.\<close>

fun call_key :: "call \<Rightarrow> string option" where
  "call_key (CallCreateAsset d m p b s t y r) = Some m"
| "call_key (CallReadAsset m) = Some m"
| "call_key (CallUpdateAsset d m p b s t y r) = Some m"
| "call_key (CallDeleteAsset m) = Some m"
| "call_key CallGetAllAssets = None"
| "call_key (CallGetAssetHistory m) = Some m"

fun is_query :: "call \<Rightarrow> bool" where
  "is_query (CallReadAsset m) = True"
| "is_query CallGetAllAssets = True"
| "is_query (CallGetAssetHistory m) = True"
| "is_query _ = False"

text \<open>
  What a ledger holds about one key: its record in the world state and its entries in the
  change log. \<open>key_untouched k l l'\<close> says the two ledgers hold the same about \<open>k\<close>.
\<close>

definition key_log :: "ledger \<Rightarrow> string \<Rightarrow> KeyModification list" where
  "key_log l k = map snd (filter (\<lambda>(k', m). k' = k) (changelog l))"

definition key_untouched :: "string \<Rightarrow> ledger \<Rightarrow> ledger \<Rightarrow> bool" where
  "key_untouched k l l' \<longleftrightarrow>
     fmlookup (world l') k = fmlookup (world l) k \<and> key_log l' k = key_log l k"

text \<open>The ledgers that contract calls alone build, starting from the empty one.\<close>

inductive reachable :: "codec \<Rightarrow> ledger \<Rightarrow> bool" for J :: codec where
  reachable_empty: "reachable J empty_ledger"
| reachable_call: "reachable J l \<Longrightarrow> reachable J (ledger_after J ctx l c)"

code_pred reachable .

section \<open>Decimal literals\<close>

text \<open>
  What it means for a string to parse as a base-10 signed 64-bit integer: an optional sign,
  then one or more decimal digits, denoting a value from \<open>- 2 ^ 63\<close> to \<open>2 ^ 63 - 1\<close>.
\<close>

definition is_digit :: "char \<Rightarrow> bool" where
  "is_digit c \<longleftrightarrow> 48 \<le> byte c \<and> byte c \<le> 57"

definition decimal_value :: "string \<Rightarrow> nat" where
  "decimal_value ds = foldl (\<lambda>a c. 10 * a + (byte c - 48)) 0 ds"

definition int_literal :: "string \<Rightarrow> int option" where
  "int_literal s =
     (case s of
        [] \<Rightarrow> None
      | c # cs \<Rightarrow>
          let ds = (if c = CHR ''+'' \<or> c = CHR ''-'' then cs else s)
          in if ds = [] \<or> \<not> list_all is_digit ds then None
             else Some (if c = CHR ''-'' then - int (decimal_value ds) else int (decimal_value ds)))"

definition parses_int64 :: "string \<Rightarrow> int \<Rightarrow> bool" where
  "parses_int64 s n \<longleftrightarrow> int_literal s = Some n \<and> - (2 ^ 63) \<le> n \<and> n < 2 ^ 63"

definition is_int64_literal :: "string \<Rightarrow> bool" where
  "is_int64_literal s \<longleftrightarrow>
     (case int_literal s of None \<Rightarrow> False | Some n \<Rightarrow> - (2 ^ 63) \<le> n \<and> n < 2 ^ 63)"

section \<open>A sample ledger\<close>

text \<open>
  Two records of one subscriber and one of another, the documents that hold them, and a
  codec that knows exactly these documents.
\<close>

definition account1 :: Account where
  "account1 = \<lparr>DEALERID = ''D1'', MSISDN = ''9990001111'', MPIN = ''1234'', BALANCE = 1000,
                STATUS = ''ACTIVE'', TRANSAMOUNT = 0, TRANSTYPE = ''NA'', REMARKS = ''init''\<rparr>"

definition account2 :: Account where
  "account2 = \<lparr>DEALERID = ''D2'', MSISDN = ''9990001111'', MPIN = ''4321'', BALANCE = 750,
                STATUS = ''BLOCKED'', TRANSAMOUNT = - 250, TRANSTYPE = ''DEBIT'',
                REMARKS = ''topup''\<rparr>"

definition document1 :: bytes where
  \<open>document1 = ''{"DEALERID":"D1","MSISDN":"9990001111","MPIN":"1234","BALANCE":1000,"STATUS":"ACTIVE","TRANSAMOUNT":0,"TRANSTYPE":"NA","REMARKS":"init"}''\<close>

definition document2 :: bytes where
  \<open>document2 = ''{"DEALERID":"D2","MSISDN":"9990001111","MPIN":"4321","BALANCE":750,"STATUS":"BLOCKED","TRANSAMOUNT":-250,"TRANSTYPE":"DEBIT","REMARKS":"topup"}''\<close>

definition account3 :: Account where
  "account3 = \<lparr>DEALERID = ''D3'', MSISDN = ''9990000005'', MPIN = ''0000'', BALANCE = 20,
                STATUS = ''ACTIVE'', TRANSAMOUNT = 20, TRANSTYPE = ''CREDIT'',
                REMARKS = []\<rparr>"

definition document3 :: bytes where
  \<open>document3 = ''{"DEALERID":"D3","MSISDN":"9990000005","MPIN":"0000","BALANCE":20,"STATUS":"ACTIVE","TRANSAMOUNT":20,"TRANSTYPE":"CREDIT","REMARKS":""}''\<close>

definition table_codec :: "(Account \<times> bytes) list \<Rightarrow> codec" where
  "table_codec tbl =
     \<lparr>Marshal = (\<lambda>a. case map_of tbl a of
                          None \<Rightarrow> Inl ''json: unsupported value''
                        | Some raw \<Rightarrow> Inr raw),
      Unmarshal = (\<lambda>b. case map_of (map (\<lambda>(a, raw). (raw, a)) tbl) b of
                            None \<Rightarrow> Inl ''invalid character''
                          | Some a \<Rightarrow> Inr a)\<rparr>"

definition sample_codec :: codec where
  "sample_codec =
     table_codec [(account1, document1), (account2, document2), (account3, document3)]"

definition tx1 :: txctx where
  "tx1 = \<lparr>GetTxID = ''tx-1'', GetTxTimestamp = \<lparr>seconds = 1700000000, nanos = 5\<rparr>\<rparr>"

definition tx2 :: txctx where
  "tx2 = \<lparr>GetTxID = ''tx-2'', GetTxTimestamp = \<lparr>seconds = 1700000060, nanos = 0\<rparr>\<rparr>"

definition tx3 :: txctx where
  "tx3 = \<lparr>GetTxID = ''tx-3'', GetTxTimestamp = \<lparr>seconds = 1700000120, nanos = 999\<rparr>\<rparr>"

text \<open>The ledger after \<open>account1\<close> was created in \<open>tx1\<close>, written out.\<close>

definition ledger1 :: ledger where
  "ledger1 =
     \<lparr>world = fmupd ''9990001111'' document1 fmempty,
      changelog = [(''9990001111'',
        \<lparr>km_TxId = ''tx-1'', km_Value = Some document1,
         km_Timestamp = Some \<lparr>seconds = 1700000000, nanos = 5\<rparr>, km_IsDelete = False\<rparr>)]\<rparr>"

text \<open>The ledger after \<open>account3\<close> was created next to \<open>account1\<close>, in \<open>tx2\<close>.\<close>

definition ledger_pair :: ledger where
  "ledger_pair =
     \<lparr>world = fmupd ''9990000005'' document3 (world ledger1),
      changelog = changelog ledger1 @ [(''9990000005'',
        \<lparr>km_TxId = ''tx-2'', km_Value = Some document3,
         km_Timestamp = Some \<lparr>seconds = 1700000060, nanos = 0\<rparr>, km_IsDelete = False\<rparr>)]\<rparr>"

text \<open>The ledgers after \<open>account2\<close> replaced it in \<open>tx2\<close> and after the key was deleted in \<open>tx3\<close>.\<close>

definition ledger2 :: ledger where
  "ledger2 =
     \<lparr>world = fmupd ''9990001111'' document2 (world ledger1),
      changelog = changelog ledger1 @ [(''9990001111'',
        \<lparr>km_TxId = ''tx-2'', km_Value = Some document2,
         km_Timestamp = Some \<lparr>seconds = 1700000060, nanos = 0\<rparr>, km_IsDelete = False\<rparr>)]\<rparr>"

definition ledger3 :: ledger where
  "ledger3 =
     \<lparr>world = fmdrop ''9990001111'' (world ledger2),
      changelog = changelog ledger2 @ [(''9990001111'',
        \<lparr>km_TxId = ''tx-3'', km_Value = None,
         km_Timestamp = Some \<lparr>seconds = 1700000120, nanos = 999\<rparr>, km_IsDelete = True\<rparr>)]\<rparr>"

text \<open>
  A ledger whose change log holds, for one key, a record that is no deletion and has no
  value, and a deletion that carries a value which is not a JSON document.
\<close>

definition odd_ledger :: ledger where
  "odd_ledger =
     \<lparr>world = fmempty,
      changelog =
        [(''9990003333'', \<lparr>km_TxId = ''tx-8'', km_Value = None, km_Timestamp = None,
                            km_IsDelete = False\<rparr>),
         (''9990003333'', \<lparr>km_TxId = ''tx-9'', km_Value = Some ''not json'',
                            km_Timestamp = Some \<lparr>seconds = 1700000180, nanos = 0\<rparr>,
                            km_IsDelete = True\<rparr>)]\<rparr>"

section \<open>What ParseInt accepts\<close>

lemma digit_val_digit:
  assumes "is_digit c"
  shows "digit_val c = Some (byte c - 48)"
  using assms by (simp add: digit_val_def is_digit_def byte_def)

lemma digit_val_non_digit:
  assumes "\<not> is_digit c" and "digit_val c = Some d"
  shows "10 \<le> d"
  using assms by (auto simp: digit_val_def is_digit_def byte_def split: if_splits)

lemma foldl_dec_mono: "n \<le> foldl (\<lambda>a c. 10 * a + (byte c - 48)) n cs"
proof (induction cs arbitrary: n)
  case Nil
  show ?case by simp
next
  case (Cons c cs)
  have "n \<le> 10 * n + (byte c - 48)" by simp
  also have "\<dots> \<le> foldl (\<lambda>a c. 10 * a + (byte c - 48)) (10 * n + (byte c - 48)) cs"
    by (rule Cons.IH)
  finally show ?case by simp
qed

lemma ParseUint_loop_digits:
  assumes "list_all is_digit cs" and "n \<le> maxUint64"
  shows "ParseUint_loop cs n =
     (if foldl (\<lambda>a c. 10 * a + (byte c - 48)) n cs \<le> maxUint64
      then (foldl (\<lambda>a c. 10 * a + (byte c - 48)) n cs, None)
      else (maxUint64, Some ErrRange))"
  using assms
proof (induction cs arbitrary: n)
  case Nil
  then show ?case by simp
next
  case (Cons c cs)
  let ?f = "\<lambda>a c. 10 * a + (byte c - 48)"
  let ?d = "byte c - 48"
  from Cons.prems have dig: "is_digit c" and rest: "list_all is_digit cs" by simp_all
  have dv: "digit_val c = Some ?d" using dig by (rule digit_val_digit)
  have d9: "?d < 10" using dig unfolding is_digit_def by arith
  have mono: "10 * n + ?d \<le> foldl ?f (10 * n + ?d) cs" by (rule foldl_dec_mono)
  show ?case
  proof (cases "n \<ge> maxUint64 div 10 + 1")
    case True
    then have "maxUint64 < 10 * n + ?d" by (simp add: maxUint64_def)
    with mono have "\<not> foldl ?f (10 * n + ?d) cs \<le> maxUint64" by simp
    with True dv d9 show ?thesis by simp
  next
    case small: False
    show ?thesis
    proof (cases "10 * n + ?d \<le> maxUint64")
      case True
      then have m: "(n * 10 + ?d) mod 2 ^ 64 = 10 * n + ?d"
        by (simp add: maxUint64_def mult.commute)
      from Cons.IH [OF rest True] small dv d9 True m show ?thesis
        by (simp add: Let_def mult.commute)
    next
      case False
      define M :: nat where "M = 2 ^ 64"
      define x where "x = n * 10 + ?d"
      from False have ge: "M \<le> x" by (simp add: maxUint64_def mult.commute M_def x_def)
      have lt: "x < 2 * M" using small d9 by (simp add: maxUint64_def M_def x_def)
      have dM: "?d < M" using d9 by (simp add: M_def)
      have "x mod M = (x - M) mod M" using ge by (rule le_mod_geq)
      also have "\<dots> = x - M" using lt ge by (intro mod_less) linarith
      also have "\<dots> < n * 10" using dM ge unfolding x_def by linarith
      finally have wrap: "(n * 10 + ?d) mod 2 ^ 64 < n * 10" by (simp add: M_def x_def)
      from False mono have "\<not> foldl ?f (10 * n + ?d) cs \<le> maxUint64" by simp
      with small dv d9 wrap show ?thesis by (simp add: Let_def)
    qed
  qed
qed

lemma ParseUint_loop_non_digit:
  assumes "\<not> list_all is_digit cs"
  shows "ParseUint_loop cs n = (0, Some ErrSyntax) \<or>
         ParseUint_loop cs n = (maxUint64, Some ErrRange)"
  using assms
proof (induction cs arbitrary: n)
  case Nil
  then show ?case by simp
next
  case (Cons c cs)
  show ?case
  proof (cases "is_digit c")
    case True
    with Cons.prems have "\<not> list_all is_digit cs" by simp
    from Cons.IH [OF this] show ?thesis
      using True by (simp add: digit_val_digit Let_def)
  next
    case False
    then show ?thesis
      by (cases "digit_val c") (auto dest: digit_val_non_digit)
  qed
qed

lemma ParseUint_digits:
  assumes "s \<noteq> []" and "list_all is_digit s"
  shows "ParseUint s =
     (if decimal_value s \<le> maxUint64 then (decimal_value s, None)
      else (maxUint64, Some ErrRange))"
  using assms ParseUint_loop_digits [of s 0]
  by (simp add: ParseUint_def decimal_value_def)

lemma ParseUint_malformed:
  assumes "s = [] \<or> \<not> list_all is_digit s"
  shows "ParseUint s = (0, Some ErrSyntax) \<or> ParseUint s = (maxUint64, Some ErrRange)"
  using assms ParseUint_loop_non_digit [of s 0]
  by (auto simp: ParseUint_def)

lemma ParseInt_syntax:
  assumes "ParseUint (if c = CHR ''+'' \<or> c = CHR ''-'' then cs else c # cs) = (0, Some ErrSyntax)"
  shows "ParseInt (c # cs) = Inl (NumError ''ParseInt'' (c # cs) ErrSyntax)"
  using assms by (cases "c = CHR ''-''"; cases "c = CHR ''+''") (simp_all add: ParseInt_def Let_def)

lemma ParseInt_range:
  assumes "ParseUint (if c = CHR ''+'' \<or> c = CHR ''-'' then cs else c # cs) = (maxUint64, Some ErrRange)"
  shows "ParseInt (c # cs) = Inl (NumError ''ParseInt'' (c # cs) ErrRange)"
  using assms by (cases "c = CHR ''-''"; cases "c = CHR ''+''")
    (simp_all add: ParseInt_def Let_def rangeError_def maxUint64_def)

lemma ParseInt_value:
  assumes "ParseUint (if c = CHR ''+'' \<or> c = CHR ''-'' then cs else c # cs) = (v, None)"
  shows "ParseInt (c # cs) =
     (if c = CHR ''-'' then (if v > 2 ^ 63 then Inl (NumError ''ParseInt'' (c # cs) ErrRange)
                            else Inr (- word_of_nat v))
      else (if v \<ge> 2 ^ 63 then Inl (NumError ''ParseInt'' (c # cs) ErrRange)
            else Inr (word_of_nat v)))"
  using assms by (cases "c = CHR ''-''"; cases "c = CHR ''+''")
    (simp_all add: ParseInt_def Let_def rangeError_def)

lemma ParseInt_accepts:
  assumes "parses_int64 s n"
  shows "ParseInt s = Inr (word_of_int n)"
proof -
  from assms have lit: "int_literal s = Some n" and lo: "- (2 ^ 63) \<le> n" and hi: "n < 2 ^ 63"
    by (simp_all add: parses_int64_def)
  from lit obtain c cs where s: "s = c # cs"
    by (cases s) (simp_all add: int_literal_def)
  define ds where "ds = (if c = CHR ''+'' \<or> c = CHR ''-'' then cs else c # cs)"
  from lit s have ne: "ds \<noteq> []" and dig: "list_all is_digit ds"
    and n: "n = (if c = CHR ''-'' then - int (decimal_value ds) else int (decimal_value ds))"
    by (auto simp: int_literal_def Let_def ds_def split: if_splits)
  have small: "decimal_value ds \<le> 2 ^ 63"
    using n lo hi by (auto split: if_splits)
  then have "decimal_value ds \<le> maxUint64" by (simp add: maxUint64_def)
  with ParseUint_digits [OF ne dig] have "ParseUint ds = (decimal_value ds, None)" by simp
  from ParseInt_value [OF this [unfolded ds_def]] show ?thesis
    using n lo hi unfolding s ds_def [symmetric]
    by (auto split: if_splits)
qed

lemma ParseInt_rejects:
  assumes "\<not> (\<exists>n. parses_int64 s n)"
  shows "\<exists>k. ParseInt s = Inl (NumError ''ParseInt'' s k)"
proof (cases s)
  case Nil
  then show ?thesis by (simp add: ParseInt_def syntaxError_def)
next
  case (Cons c cs)
  define ds where "ds = (if c = CHR ''+'' \<or> c = CHR ''-'' then cs else c # cs)"
  show ?thesis
  proof (cases "ds \<noteq> [] \<and> list_all is_digit ds")
    case False
    then have "ds = [] \<or> \<not> list_all is_digit ds" by blast
    from ParseUint_malformed [OF this] show ?thesis
      unfolding Cons ds_def using ParseInt_syntax ParseInt_range by blast
  next
    case True
    then have ne: "ds \<noteq> []" and dig: "list_all is_digit ds" by simp_all
    define n where "n = (if c = CHR ''-'' then - int (decimal_value ds) else int (decimal_value ds))"
    have lit: "int_literal s = Some n"
      using ne dig by (auto simp: int_literal_def Cons Let_def ds_def n_def)
    with assms have out: "\<not> (- (2 ^ 63) \<le> n \<and> n < 2 ^ 63)"
      by (simp add: parses_int64_def)
    show ?thesis
    proof (cases "decimal_value ds \<le> maxUint64")
      case False
      with ParseUint_digits [OF ne dig] have "ParseUint ds = (maxUint64, Some ErrRange)" by simp
      from ParseInt_range [OF this [unfolded ds_def]] show ?thesis unfolding Cons by blast
    next
      case True
      with ParseUint_digits [OF ne dig] have "ParseUint ds = (decimal_value ds, None)" by simp
      from ParseInt_value [OF this [unfolded ds_def]] show ?thesis
        using out unfolding Cons ds_def [symmetric] n_def
        by (auto split: if_splits)
    qed
  qed
qed

lemma sint_parsed:
  assumes "parses_int64 s n"
  shows "sint (word_of_int n :: int64) = n"
proof -
  from assms have "- (2 ^ 63) \<le> n" and "n < 2 ^ 63" by (simp_all add: parses_int64_def)
  then have "signed_take_bit 63 n = n" by (intro signed_take_bit_int_eq_self) simp_all
  then show ?thesis by (simp add: sint_sbintrunc')
qed



section \<open>Strings through the JSON package\<close>

lemma chr_byte [simp]: "chr (byte c) = c"
  by (simp add: chr_def byte_def)

lemma modk: "x < n \<Longrightarrow> (k * n + x) mod n = (x::nat)" by simp
lemma divk: "x < n \<Longrightarrow> (k * n + x) div n = (k::nat)" by simp

lemma EncodeRune_2:
  assumes "\<not> r < 128" "r < 2048"
  shows "EncodeRune r = [chr (192 + r div 64), chr (128 + r mod 64)]"
  using assms by (simp add: EncodeRune_def)

lemma EncodeRune_3:
  assumes "\<not> r < 2048" "r < 65536" "r < 55296 \<or> 57343 < r"
  shows "EncodeRune r =
    [chr (224 + r div 4096), chr (128 + (r div 64) mod 64), chr (128 + r mod 64)]"
  using assms by (auto simp: EncodeRune_def)

lemma EncodeRune_4:
  assumes "\<not> r < 65536" "r \<le> 1114111"
  shows "EncodeRune r =
    [chr (240 + r div 262144), chr (128 + (r div 4096) mod 64),
     chr (128 + (r div 64) mod 64), chr (128 + r mod 64)]"
  using assms by (auto simp: EncodeRune_def)

lemma enc2:
  fixes x y :: nat
  assumes "2 \<le> x" "x < 32" "y < 64"
  shows "EncodeRune (((192 + x) mod 32) * 64 + (128 + y) mod 64) = [chr (192 + x), chr (128 + y)]"
proof -
  have m0: "(192 + x) mod 32 = x" using modk [of x 32 6] assms by simp
  have m1: "(128 + y) mod 64 = y" using modk [of y 64 2] assms by simp
  define R where "R = x * 64 + y"
  have r: "\<not> R < 128" "R < 2048" using assms by (simp_all add: R_def)
  have d: "R div 64 = x" "R mod 64 = y" using assms by (simp_all add: R_def)
  show ?thesis unfolding m0 m1 R_def [symmetric] EncodeRune_2 [OF r] d ..
qed

lemma enc3:
  fixes x y z :: nat
  assumes "x < 16" "y < 64" "z < 64" "x = 0 \<longrightarrow> 32 \<le> y" "x = 13 \<longrightarrow> y \<le> 31"
  shows "EncodeRune (((224 + x) mod 16) * 4096 + ((128 + y) mod 64) * 64 + (128 + z) mod 64) =
           [chr (224 + x), chr (128 + y), chr (128 + z)]"
proof -
  have m0: "(224 + x) mod 16 = x" using modk [of x 16 14] assms by simp
  have m1: "(128 + y) mod 64 = y" using modk [of y 64 2] assms by simp
  have m2: "(128 + z) mod 64 = z" using modk [of z 64 2] assms by simp
  define R where "R = x * 4096 + y * 64 + z"
  have lo: "\<not> R < 2048" using assms by (cases "x = 0") (simp_all add: R_def)
  have hi: "R < 65536" using assms by (simp add: R_def)
  have sur: "R < 55296 \<or> 57343 < R"
  proof (cases "x = 13")
    case True
    with assms show ?thesis by (simp add: R_def)
  next
    case False
    then consider "x \<le> 12" | "14 \<le> x" by linarith
    then show ?thesis using assms by cases (simp_all add: R_def)
  qed
  have e1: "R = x * 4096 + (y * 64 + z)" by (simp add: R_def)
  have e2: "R = (x * 64 + y) * 64 + z" by (simp add: R_def)
  have "y * 64 + z < 4096" using assms by simp
  then have d1: "R div 4096 = x" unfolding e1 by (rule divk)
  have "R div 64 = x * 64 + y" unfolding e2 using assms(3) by (rule divk)
  then have d2: "(R div 64) mod 64 = y" using modk [OF assms(2), of x] by (simp only:)
  have d3: "R mod 64 = z" unfolding e2 using assms(3) by (rule modk)
  show ?thesis unfolding m0 m1 m2 R_def [symmetric] EncodeRune_3 [OF lo hi sur] d1 d2 d3 ..
qed

lemma enc4:
  fixes x y z u :: nat
  assumes "x \<le> 4" "y < 64" "z < 64" "u < 64" "x = 0 \<longrightarrow> 16 \<le> y" "x = 4 \<longrightarrow> y \<le> 15"
  shows "EncodeRune (((240 + x) mod 8) * 262144 + ((128 + y) mod 64) * 4096 +
            ((128 + z) mod 64) * 64 + (128 + u) mod 64) =
           [chr (240 + x), chr (128 + y), chr (128 + z), chr (128 + u)]"
proof -
  have m0: "(240 + x) mod 8 = x" using modk [of x 8 30] assms by simp
  have m1: "(128 + y) mod 64 = y" using modk [of y 64 2] assms by simp
  have m2: "(128 + z) mod 64 = z" using modk [of z 64 2] assms by simp
  have m3: "(128 + u) mod 64 = u" using modk [of u 64 2] assms by simp
  define R where "R = x * 262144 + y * 4096 + z * 64 + u"
  have lo: "\<not> R < 65536" using assms by (cases "x = 0") (simp_all add: R_def)
  have hi: "R \<le> 1114111"
  proof (cases "x = 4")
    case True
    with assms show ?thesis by (simp add: R_def)
  next
    case False
    with assms have "x \<le> 3" by simp
    then show ?thesis using assms by (simp add: R_def)
  qed
  have e0: "R = x * 262144 + (y * 4096 + z * 64 + u)" by (simp add: R_def)
  have e1: "R = (x * 64 + y) * 4096 + (z * 64 + u)" by (simp add: R_def)
  have e2: "R = ((x * 64 + y) * 64 + z) * 64 + u" by (simp add: R_def)
  have "y * 4096 + z * 64 + u < 262144" using assms by simp
  then have d1: "R div 262144 = x" unfolding e0 by (rule divk)
  have "z * 64 + u < 4096" using assms by simp
  then have "R div 4096 = x * 64 + y" unfolding e1 by (rule divk)
  then have d2: "(R div 4096) mod 64 = y" using modk [OF assms(2), of x] by (simp only:)
  have "R div 64 = (x * 64 + y) * 64 + z" unfolding e2 using assms(4) by (rule divk)
  then have d3: "(R div 64) mod 64 = z" using modk [OF assms(3), of "x * 64 + y"] by (simp only:)
  have d4: "R mod 64 = u" unfolding e2 using assms(4) by (rule modk)
  show ?thesis unfolding m0 m1 m2 m3 R_def [symmetric] EncodeRune_4 [OF lo hi] d1 d2 d3 d4 ..
qed

lemma enc2_bytes:
  assumes "194 \<le> byte c0" "byte c0 \<le> 223" "cont c1"
  shows "EncodeRune ((byte c0 mod 32) * 64 + byte c1 mod 64) = [c0, c1]"
proof -
  define x where "x = byte c0 - 192"
  define y where "y = byte c1 - 128"
  have b: "byte c0 = 192 + x" "byte c1 = 128 + y" and r: "2 \<le> x" "x < 32" "y < 64"
    using assms by (auto simp: x_def y_def cont_def)
  have "EncodeRune ((byte c0 mod 32) * 64 + byte c1 mod 64) = [chr (byte c0), chr (byte c1)]"
    unfolding b by (rule enc2 [OF r])
  then show ?thesis by simp
qed

lemma enc3_bytes:
  assumes "224 \<le> byte c0" "byte c0 \<le> 239"
    and "(if byte c0 = 224 then 160 else 128) \<le> byte c1"
    and "byte c1 \<le> (if byte c0 = 237 then 159 else 191)" and "cont c2"
  shows "EncodeRune ((byte c0 mod 16) * 4096 + (byte c1 mod 64) * 64 + byte c2 mod 64) =
           [c0, c1, c2]"
proof -
  define x where "x = byte c0 - 224"
  define y where "y = byte c1 - 128"
  define z where "z = byte c2 - 128"
  have b: "byte c0 = 224 + x" "byte c1 = 128 + y" "byte c2 = 128 + z"
    using assms by (simp_all add: x_def y_def z_def cont_def split: if_splits)
  have r: "x < 16" "y < 64" "z < 64" "x = 0 \<longrightarrow> 32 \<le> y" "x = 13 \<longrightarrow> y \<le> 31"
    using assms by (auto simp: x_def y_def z_def cont_def split: if_splits)
  have "EncodeRune ((byte c0 mod 16) * 4096 + (byte c1 mod 64) * 64 + byte c2 mod 64) =
      [chr (byte c0), chr (byte c1), chr (byte c2)]"
    unfolding b by (rule enc3 [OF r])
  then show ?thesis by simp
qed

lemma enc4_bytes:
  assumes "240 \<le> byte c0" "byte c0 \<le> 244"
    and "(if byte c0 = 240 then 144 else 128) \<le> byte c1"
    and "byte c1 \<le> (if byte c0 = 244 then 143 else 191)" and "cont c2" and "cont c3"
  shows "EncodeRune ((byte c0 mod 8) * 262144 + (byte c1 mod 64) * 4096 +
            (byte c2 mod 64) * 64 + byte c3 mod 64) = [c0, c1, c2, c3]"
proof -
  define x where "x = byte c0 - 240"
  define y where "y = byte c1 - 128"
  define z where "z = byte c2 - 128"
  define u where "u = byte c3 - 128"
  have b: "byte c0 = 240 + x" "byte c1 = 128 + y" "byte c2 = 128 + z" "byte c3 = 128 + u"
    using assms by (simp_all add: x_def y_def z_def u_def cont_def split: if_splits)
  have r: "x \<le> 4" "y < 64" "z < 64" "u < 64" "x = 0 \<longrightarrow> 16 \<le> y" "x = 4 \<longrightarrow> y \<le> 15"
    using assms by (auto simp: x_def y_def z_def u_def cont_def split: if_splits)
  have "EncodeRune ((byte c0 mod 8) * 262144 + (byte c1 mod 64) * 4096 +
      (byte c2 mod 64) * 64 + byte c3 mod 64) =
      [chr (byte c0), chr (byte c1), chr (byte c2), chr (byte c3)]"
    unfolding b by (rule enc4 [OF r])
  then show ?thesis by simp
qed

text \<open>A rune that decodes without error is a prefix of the input, and encodes to it.\<close>

lemma DecodeRune_cases:
  assumes "DecodeRuneInString (c0 # cs) = (r, n)"
  obtains (ascii) "byte c0 < 128" "r = byte c0" "n = 1"
    | (invalid) "128 \<le> byte c0" "r = RuneError" "n = 1"
    | (two) c1 t where "cs = c1 # t" "194 \<le> byte c0" "byte c0 \<le> 223" "cont c1"
        "r = (byte c0 mod 32) * 64 + byte c1 mod 64" "n = 2"
    | (three) c1 c2 t where "cs = c1 # c2 # t" "224 \<le> byte c0" "byte c0 \<le> 239"
        "(if byte c0 = 224 then 160 else 128) \<le> byte c1"
        "byte c1 \<le> (if byte c0 = 237 then 159 else 191)" "cont c2"
        "r = (byte c0 mod 16) * 4096 + (byte c1 mod 64) * 64 + byte c2 mod 64" "n = 3"
    | (four) c1 c2 c3 t where "cs = c1 # c2 # c3 # t" "240 \<le> byte c0" "byte c0 \<le> 244"
        "(if byte c0 = 240 then 144 else 128) \<le> byte c1"
        "byte c1 \<le> (if byte c0 = 244 then 143 else 191)" "cont c2" "cont c3"
        "r = (byte c0 mod 8) * 262144 + (byte c1 mod 64) * 4096 + (byte c2 mod 64) * 64 +
               byte c3 mod 64" "n = 4"
proof (cases "byte c0 < 128")
  case True
  with assms show ?thesis by (intro ascii) (simp_all add: Let_def)
next
  case hi: False
  show ?thesis
  proof (cases "194 \<le> byte c0 \<and> byte c0 \<le> 223")
    case True
    show ?thesis
    proof (cases cs)
      case Nil
      with assms hi True show ?thesis by (intro invalid) (simp_all add: Let_def)
    next
      case (Cons c1 t)
      show ?thesis
      proof (cases "cont c1")
        case c: True
        with assms hi True Cons show ?thesis by (intro two [of c1 t]) (simp_all add: Let_def)
      next
        case False
        with assms hi True Cons show ?thesis by (intro invalid) (simp_all add: Let_def)
      qed
    qed
  next
    case n2: False
    show ?thesis
    proof (cases "224 \<le> byte c0 \<and> byte c0 \<le> 239")
      case True
      show ?thesis
      proof (cases "\<exists>c1 c2 t. cs = c1 # c2 # t \<and> (if byte c0 = 224 then 160 else 128) \<le> byte c1 \<and>
          byte c1 \<le> (if byte c0 = 237 then 159 else 191) \<and> cont c2")
        case ok: True
        then obtain c1 c2 t where "cs = c1 # c2 # t"
          "(if byte c0 = 224 then 160 else 128) \<le> byte c1"
          "byte c1 \<le> (if byte c0 = 237 then 159 else 191)" "cont c2" by blast
        with assms hi n2 True show ?thesis
          by (intro three [of c1 c2 t]) (simp_all add: Let_def)
      next
        case False
        with assms hi n2 True show ?thesis
          by (intro invalid) (auto simp: Let_def split: list.splits if_splits)
      qed
    next
      case n3: False
      show ?thesis
      proof (cases "240 \<le> byte c0 \<and> byte c0 \<le> 244")
        case True
        show ?thesis
        proof (cases "\<exists>c1 c2 c3 t. cs = c1 # c2 # c3 # t \<and>
            (if byte c0 = 240 then 144 else 128) \<le> byte c1 \<and>
            byte c1 \<le> (if byte c0 = 244 then 143 else 191) \<and> cont c2 \<and> cont c3")
          case ok: True
          then obtain c1 c2 c3 t where "cs = c1 # c2 # c3 # t"
            "(if byte c0 = 240 then 144 else 128) \<le> byte c1"
            "byte c1 \<le> (if byte c0 = 244 then 143 else 191)" "cont c2" "cont c3" by blast
          with assms hi n2 n3 True show ?thesis
            by (intro four [of c1 c2 c3 t]) (simp_all add: Let_def)
        next
          case False
          with assms hi n2 n3 True show ?thesis
            by (intro invalid) (auto simp: Let_def split: list.splits if_splits)
        qed
      next
        case False
        with assms hi n2 n3 show ?thesis by (intro invalid) (simp_all add: Let_def)
      qed
    qed
  qed
qed

lemma EncodeRune_DecodeRune:
  assumes "DecodeRuneInString (c0 # cs) = (r, n)" and "\<not> (r = RuneError \<and> n = 1)"
  shows "EncodeRune r = take n (c0 # cs)"
  using assms(1)
proof (cases rule: DecodeRune_cases)
  case ascii
  then show ?thesis by (simp add: EncodeRune_def)
next
  case invalid
  with assms(2) show ?thesis by simp
next
  case (two c1 t)
  then show ?thesis using enc2_bytes [of c0 c1] by simp
next
  case (three c1 c2 t)
  then show ?thesis using enc3_bytes [of c0 c1 c2] by simp
next
  case (four c1 c2 c3 t)
  then show ?thesis using enc4_bytes [of c0 c1 c2 c3] by simp
qed

lemma DecodeRune_prefix:
  assumes "DecodeRuneInString (c0 # cs) = (r, n)" and "\<not> (r = RuneError \<and> n = 1)"
  shows "DecodeRuneInString (c0 # take (n - 1) cs @ t) = (r, n)"
  using assms(1)
proof (cases rule: DecodeRune_cases)
  case ascii
  then show ?thesis by (simp add: Let_def)
next
  case invalid
  with assms(2) show ?thesis by simp
next
  case (two c1 t)
  then show ?thesis by (simp add: Let_def)
next
  case (three c1 c2 t)
  then show ?thesis by (simp add: Let_def)
next
  case (four c1 c2 c3 t)
  then show ?thesis by (simp add: Let_def)
qed

lemma hexval_hexchar: "n < 16 \<Longrightarrow> hexval (hexchar n) = Some n"
proof -
  assume "n < 16"
  then have "n \<in> set [0, 1, 2, 3, 4, 5, 6, 7, 8, 9, 10, 11, 12, 13, 14, 15]"
    by (simp del: set_simps) (simp, arith)
  moreover have "\<forall>k \<in> set [0, 1, 2, 3, 4, 5, 6, 7, 8, 9, 10, 11, 12, 13, 14, 15::nat].
      hexval (hexchar k) = Some k"
    by (simp add: hexval_def hexchar_def byte_def)
  ultimately show ?thesis by blast
qed

lemma DecodeRune_size_le:
  assumes "DecodeRuneInString (c # cs) = (r, n)"
  shows "n - 1 \<le> length cs" and "1 \<le> n"
  using assms by (cases rule: DecodeRune_cases; simp)+

lemma DecodeRune_ascii: "byte c < 128 \<Longrightarrow> DecodeRuneInString (c # cs) = (byte c, 1)"
  by (simp add: Let_def)

lemma EncodeRune_ascii: "byte c < 128 \<Longrightarrow> EncodeRune (byte c) = [c]"
  by (simp add: EncodeRune_def)

lemma to_valid_utf8_ascii:
  "byte c < 128 \<Longrightarrow> to_valid_utf8 (c # cs) = c # to_valid_utf8 cs"
  by (simp add: DecodeRune_ascii EncodeRune_ascii del: DecodeRuneInString.simps)

lemma byte_eq_iff: "byte c = n \<Longrightarrow> c = chr n"
  by (metis chr_byte)

lemma unquote_safe:
  assumes "htmlSafe c"
  shows "unquote_loop (c # X) = emit [c] (unquote_loop X)"
  using assms by (auto simp: htmlSafe_def)

lemma getu4_00:
  assumes "a < 16" "b < 16"
  shows "getu4 (CHR 0x5C # CHR ''u'' # CHR ''0'' # CHR ''0'' # hexchar a # hexchar b # X) =
           Some (a * 16 + b)"
  using assms by (simp add: hexval_hexchar) (simp add: hexval_def byte_def)

lemma unquote_escape_byte:
  assumes "byte c < 128" and "\<not> htmlSafe c"
  shows "unquote_loop (escape_byte c @ X) = emit [c] (unquote_loop X)"
proof -
  consider "c = CHR 0x5C \<or> c = CHR 0x22" | "byte c = 8" | "byte c = 12" | "byte c = 10"
    | "byte c = 13" | "byte c = 9"
    | "c \<noteq> CHR 0x5C" "c \<noteq> CHR 0x22" "byte c \<notin> {8, 12, 10, 13, 9}"
    by auto
  then show ?thesis
  proof cases
    case 1
    then show ?thesis by (auto simp: escape_byte_def)
  next
    case 2
    then show ?thesis using byte_eq_iff [OF 2] by (simp add: escape_byte_def byte_def chr_def)
  next
    case 3
    then show ?thesis using byte_eq_iff [OF 3] by (simp add: escape_byte_def byte_def chr_def)
  next
    case 4
    then show ?thesis using byte_eq_iff [OF 4] by (simp add: escape_byte_def byte_def chr_def)
  next
    case 5
    then show ?thesis using byte_eq_iff [OF 5] by (simp add: escape_byte_def byte_def chr_def)
  next
    case 6
    then show ?thesis using byte_eq_iff [OF 6] by (simp add: escape_byte_def byte_def chr_def)
  next
    case 7
    let ?b = "byte c"
    have hi: "?b div 16 < 16" and lo: "?b mod 16 < 16" using assms(1) by simp_all
    have esc: "escape_byte c = [CHR 0x5C, CHR ''u'', CHR ''0'', CHR ''0'', hexchar (?b div 16),
        hexchar (?b mod 16)]"
      using 7 by (simp add: escape_byte_def)
    have g: "getu4 (CHR 0x5C # CHR ''u'' # CHR ''0'' # CHR ''0'' # hexchar (?b div 16) #
        hexchar (?b mod 16) # X) = Some ?b"
      using getu4_00 [OF hi lo, of X] by simp
    have ns: "\<not> 55296 \<le> ?b" using assms(1) by simp
    show ?thesis
      unfolding esc using g ns EncodeRune_ascii [OF assms(1)]
      by (simp del: getu4.simps)
  qed
qed

lemma unquote_fffd:
  "unquote_loop ([CHR 0x5C, CHR ''u'', CHR ''f'', CHR ''f'', CHR ''f'', CHR ''d''] @ X) =
     emit (EncodeRune RuneError) (unquote_loop X)"
  by (simp add: hexval_def byte_def RuneError_def)

lemma unquote_202x:
  assumes "r = 8232 \<or> r = 8233"
  shows "unquote_loop ([CHR 0x5C, CHR ''u'', CHR ''2'', CHR ''0'', CHR ''2'', hexchar (r mod 16)] @ X) =
     emit (EncodeRune r) (unquote_loop X)"
  using assms by (auto simp: hexval_def byte_def hexchar_def)

lemma unquote_raw:
  assumes dec: "DecodeRuneInString (c # cs) = (r, n)" and ok: "\<not> (r = RuneError \<and> n = 1)"
    and hi: "\<not> byte c < 128"
  shows "unquote_loop (c # take (n - 1) cs @ Y) = emit (EncodeRune r) (unquote_loop Y)"
proof -
  have c: "c \<noteq> CHR 0x22" "c \<noteq> CHR 0x5C" "\<not> byte c < 32"
    using hi by (auto simp: byte_def)
  have len: "length (take (n - 1) cs) = n - 1"
    using DecodeRune_size_le(1) [OF dec] by simp
  have "unquote_loop (c # take (n - 1) cs @ Y) =
      (case DecodeRuneInString (c # take (n - 1) cs @ Y) of
         (rr, k) \<Rightarrow> emit (EncodeRune rr) (unquote_loop (drop (k - 1) (take (n - 1) cs @ Y))))"
    using c hi by (simp del: DecodeRuneInString.simps)
  also have "\<dots> = emit (EncodeRune r) (unquote_loop (drop (n - 1) (take (n - 1) cs @ Y)))"
    by (simp only: DecodeRune_prefix [OF dec ok] prod.case)
  also have "drop (n - 1) (take (n - 1) cs @ Y) = Y"
    using len by simp
  finally show ?thesis .
qed

lemma emit_Some [simp]: "emit w (Some (ws, t)) = Some (w @ ws, t)"
  by (simp add: emit_def)

theorem unquote_escape:
  "unquote_loop (escape_runes s @ CHR 0x22 # t) = Some (to_valid_utf8 s, t)"
proof (induction s rule: escape_runes.induct)
  case 1
  show ?case by simp
next
  case (2 c cs)
  show ?case
  proof (cases "byte c < 128")
    case True
    note ih = "2.IH"(1) [OF True]
    show ?thesis
    proof (cases "htmlSafe c")
      case safe: True
      then show ?thesis
        using True ih
        by (simp add: unquote_safe to_valid_utf8_ascii
            del: unquote_loop.simps to_valid_utf8.simps)
    next
      case False
      then show ?thesis
        using True ih
        by (simp add: unquote_escape_byte to_valid_utf8_ascii
            del: unquote_loop.simps to_valid_utf8.simps)
    qed
  next
    case hi: False
    obtain r n where dec: "DecodeRuneInString (c # cs) = (r, n)"
      by (cases "DecodeRuneInString (c # cs)")
    show ?thesis
    proof (cases "r = RuneError \<and> n = 1")
      case True
      note ih = "2.IH"(2) [OF hi dec [symmetric] True]
      have "escape_runes (c # cs) =
          [CHR 0x5C, CHR ''u'', CHR ''f'', CHR ''f'', CHR ''f'', CHR ''d''] @ escape_runes cs"
        using hi dec True by (simp del: DecodeRuneInString.simps)
      moreover have "to_valid_utf8 (c # cs) = EncodeRune RuneError @ to_valid_utf8 cs"
        using dec True by (simp del: DecodeRuneInString.simps)
      ultimately show ?thesis
        using ih unquote_fffd [of "escape_runes cs @ CHR 0x22 # t"]
        by (simp del: unquote_loop.simps DecodeRuneInString.simps escape_runes.simps
            to_valid_utf8.simps)
    next
      case ok: False
      have tv: "to_valid_utf8 (c # cs) = EncodeRune r @ to_valid_utf8 (drop (n - 1) cs)"
        using dec by (simp del: DecodeRuneInString.simps)
      show ?thesis
      proof (cases "r = 8232 \<or> r = 8233")
        case True
        note ih = "2.IH"(3) [OF hi dec [symmetric] ok True]
        have "escape_runes (c # cs) =
            [CHR 0x5C, CHR ''u'', CHR ''2'', CHR ''0'', CHR ''2'', hexchar (r mod 16)] @
            escape_runes (drop (n - 1) cs)"
          using hi dec ok True by (simp del: DecodeRuneInString.simps)
        then show ?thesis
          using ih tv unquote_202x [OF True, of "escape_runes (drop (n - 1) cs) @ CHR 0x22 # t"]
          by (simp del: unquote_loop.simps DecodeRuneInString.simps escape_runes.simps
              to_valid_utf8.simps)
      next
        case False
        note ih = "2.IH"(4) [OF hi dec [symmetric] ok False]
        have "escape_runes (c # cs) = c # take (n - 1) cs @ escape_runes (drop (n - 1) cs)"
          using hi dec ok False by (simp del: DecodeRuneInString.simps)
        then show ?thesis
          using ih tv
            unquote_raw [OF dec ok hi, of "escape_runes (drop (n - 1) cs) @ CHR 0x22 # t"]
          by (simp del: unquote_loop.simps DecodeRuneInString.simps escape_runes.simps
              to_valid_utf8.simps)
      qed
    qed
  qed
qed

lemma to_valid_utf8_id:
  "ValidString s \<Longrightarrow> to_valid_utf8 s = s"
proof (induction s rule: to_valid_utf8.induct)
  case 1
  show ?case by simp
next
  case (2 c cs)
  obtain r n where dec: "DecodeRuneInString (c # cs) = (r, n)"
    by (cases "DecodeRuneInString (c # cs)")
  from "2.prems" dec have ok: "\<not> (r = RuneError \<and> n = 1)"
    and rest: "ValidString (drop (n - 1) cs)"
    by (simp_all del: DecodeRuneInString.simps)
  from "2.IH" [OF dec [symmetric] rest] have ih: "to_valid_utf8 (drop (n - 1) cs) = drop (n - 1) cs" .
  have "EncodeRune r = take n (c # cs)" using dec ok by (rule EncodeRune_DecodeRune)
  also have "\<dots> = c # take (n - 1) cs"
    using DecodeRune_size_le(2) [OF dec] by (cases n) simp_all
  finally show ?case
    using dec ih by (simp del: DecodeRuneInString.simps)
qed

subsection \<open>Numbers and whole documents\<close>

text \<open>
  \<open>ParseInt\<close> reads back what \<open>FormatInt\<close> writes, the decoder's number token ends where the
  encoder's digits end, and so the decoder returns for every document of the encoder the
  record that went in, its strings coerced to valid UTF-8.
\<close>

lemma digits_rec: "10 \<le> n \<Longrightarrow> digits n = digits (n div 10) @ [chr (48 + n mod 10)]"
  by (subst digits.simps) simp

lemma digits_small: "n < 10 \<Longrightarrow> digits n = [chr (48 + n)]"
  by (subst digits.simps) simp

lemma byte_chr: "n < 256 \<Longrightarrow> byte (chr n) = n"
  by (simp add: byte_def chr_def)

lemma is_digit_chr: "d < 10 \<Longrightarrow> is_digit (chr (48 + d))"
  by (simp add: is_digit_def byte_chr)

lemma digits_all: "list_all is_digit (digits n)"
proof (induction n rule: digits.induct)
  case (1 n)
  show ?case
  proof (cases "n < 10")
    case True
    then show ?thesis by (simp add: digits_small is_digit_chr)
  next
    case False
    with 1 show ?thesis by (simp add: digits_rec is_digit_chr)
  qed
qed

lemma digits_nonempty: "digits n \<noteq> []"
  by (subst digits.simps) simp

lemma decimal_value_snoc:
  "decimal_value (ds @ [c]) = 10 * decimal_value ds + (byte c - 48)"
  by (simp add: decimal_value_def)

lemma decimal_value_digits: "decimal_value (digits n) = n"
proof (induction n rule: digits.induct)
  case (1 n)
  show ?case
  proof (cases "n < 10")
    case True
    then show ?thesis by (simp add: digits_small decimal_value_def byte_chr)
  next
    case False
    with 1 have "decimal_value (digits (n div 10)) = n div 10" by simp
    with False show ?thesis
      by (simp add: digits_rec decimal_value_snoc byte_chr)
  qed
qed

lemma ParseInt_FormatInt: "ParseInt (FormatInt i) = Inr i"
proof -
  have range: "- (2 ^ 63) \<le> sint i" "sint i < 2 ^ 63"
    using sint_range_size [of i] by (simp_all add: word_size)
  have "int_literal (FormatInt i) = Some (sint i)"
  proof (cases "sint i < 0")
    case True
    then show ?thesis
      by (simp add: FormatInt_def int_literal_def digits_nonempty digits_all
          decimal_value_digits)
  next
    case False
    obtain c cs where d: "digits (nat (sint i)) = c # cs"
      using digits_nonempty [of "nat (sint i)"] by (cases "digits (nat (sint i))") auto
    have "is_digit c" using digits_all [of "nat (sint i)"] d by simp
    then have "c \<noteq> CHR ''+''" "c \<noteq> CHR ''-''" by (auto simp: is_digit_def byte_def)
    moreover have "list_all is_digit (c # cs)" "decimal_value (c # cs) = nat (sint i)"
      using digits_all [of "nat (sint i)"] decimal_value_digits [of "nat (sint i)"] d by simp_all
    ultimately show ?thesis
      using False d by (simp add: FormatInt_def int_literal_def)
  qed
  with range have "parses_int64 (FormatInt i) (sint i)" by (simp add: parses_int64_def)
  from ParseInt_accepts [OF this] show ?thesis by simp
qed

lemma chr_lit: "byte c = n \<Longrightarrow> chr n = c"
  using chr_byte [of c] by simp

lemma chr_48: "chr 48 = CHR ''0''"
  by (rule chr_lit) (simp add: byte_def)

lemma digits_hd:
  assumes "0 < n"
  shows "hd (digits n) \<noteq> CHR ''0''"
  using assms
proof (induction n rule: digits.induct)
  case (1 n)
  show ?case
  proof (cases "n < 10")
    case True
    have "byte (chr (48 + n)) \<noteq> byte (CHR ''0'')"
      using True "1.prems" by (simp add: byte_chr) (simp add: byte_def)
    then have "chr (48 + n) \<noteq> CHR ''0''" by auto
    with True show ?thesis by (simp add: digits_small)
  next
    case False
    then have "0 < n div 10" by simp
    with 1 False have "hd (digits (n div 10)) \<noteq> CHR ''0''" by simp
    with False show ?thesis by (simp add: digits_rec digits_nonempty)
  qed
qed

lemma digits_0: "digits 0 = ''0''"
  by (simp add: digits_small chr_48)

lemma is_digit_number_char: "is_digit c \<Longrightarrow> number_char c"
proof -
  assume "is_digit c"
  then have "byte c \<in> set [48, 49, 50, 51, 52, 53, 54, 55, 56, 57]"
    unfolding is_digit_def by (simp, arith)
  then have "c \<in> set (map chr [48, 49, 50, 51, 52, 53, 54, 55, 56, 57])"
    using chr_byte [of c] by (metis image_eqI list.set_map)
  moreover have "map chr [48, 49, 50, 51, 52, 53, 54, 55, 56, 57] = ''0123456789''"
    by (simp add: byte_def chr_lit)
  ultimately show ?thesis by (simp add: number_char_def)
qed

lemma digits_decimal: "list_all (\<lambda>c. 48 \<le> byte c \<and> byte c \<le> 57) (digits n)"
  using digits_all [of n] by (simp add: list_all_iff is_digit_def)

lemma FormatInt_chars: "list_all number_char (FormatInt i)"
proof -
  have "list_all number_char (digits n)" for n
    using digits_all [of n] by (simp add: list_all_iff is_digit_number_char)
  then show ?thesis by (simp add: FormatInt_def number_char_def)
qed

lemma json_integer_FormatInt: "json_integer (FormatInt i)"
proof (cases "sint i < 0")
  case True
  then have "0 < nat (- sint i)" by simp
  from digits_hd [OF this] show ?thesis
    using True
    by (simp add: json_integer_def FormatInt_def digits_nonempty digits_decimal)
next
  case False
  obtain c cs where d: "digits (nat (sint i)) = c # cs"
    using digits_nonempty [of "nat (sint i)"] by (cases "digits (nat (sint i))") auto
  have "is_digit c" using digits_all [of "nat (sint i)"] d by simp
  then have c: "c \<noteq> CHR ''-''" by (auto simp: is_digit_def byte_def)
  have zero: "digits (nat (sint i)) = ''0'' \<or> hd (digits (nat (sint i))) \<noteq> CHR ''0''"
    using digits_hd [of "nat (sint i)"] digits_0 by (cases "nat (sint i) = 0") auto
  have dec: "list_all (\<lambda>c. 48 \<le> byte c \<and> byte c \<le> 57) (c # cs)"
    using digits_decimal [of "nat (sint i)"] d by simp
  show ?thesis
    using False c zero dec
    by (simp add: json_integer_def FormatInt_def d)
qed

lemma number_FormatInt:
  assumes "\<not> number_char c"
  shows "number (FormatInt i @ c # rest) = Some (i, c # rest)"
proof -
  have all: "\<forall>x \<in> set (FormatInt i). number_char x"
    using FormatInt_chars [of i] by (simp add: list_all_iff)
  have t: "takeWhile number_char (FormatInt i @ c # rest) = FormatInt i"
    using assms by (simp add: takeWhile_append2 [OF all [rule_format]])
  have d: "dropWhile number_char (FormatInt i @ c # rest) = c # rest"
    using assms by (simp add: dropWhile_append2 [OF all [rule_format]])
  show ?thesis
    unfolding number_def t d by (simp add: json_integer_FormatInt ParseInt_FormatInt)
qed

lemma unquote_appendString:
  "unquote (appendString s @ rest) = Some (to_valid_utf8 s, rest)"
  using unquote_escape [of s rest] by (simp add: unquote_def appendString_def)

lemma number_FormatInt_comma:
  "number (FormatInt i @ CHR '','' # rest) = Some (i, CHR '','' # rest)"
  by (rule number_FormatInt) (simp add: number_char_def)

theorem Unmarshal_Marshal:
  "Marshal_Account a = Inr raw \<Longrightarrow> Unmarshal_Account raw = Inr (coerced a)"
  unfolding Marshal_Account_def Unmarshal_Account_def decode_object_def coerced_def
  by (clarsimp simp add: unquote_appendString number_FormatInt_comma)

lemma Marshal_encoding_json: "Marshal encoding_json a = Marshal_Account a"
  by (simp add: encoding_json_def)

lemma Unmarshal_encoding_json: "Unmarshal encoding_json raw = Unmarshal_Account raw"
  by (simp add: encoding_json_def)

section \<open>The contract on one key\<close>

lemma exists_eq: "exists l key = Inr (fmlookup (world l) key \<noteq> None)"
  by (simp add: exists_def GetState_def)

lemma CreateAsset_present:
  assumes "fmlookup (world l) k = Some v"
  shows "CreateAsset J ctx l d k p b s t y r = (l, Some (ErrorString ''asset exists''))"
  using assms by (simp add: CreateAsset_def exists_eq)

lemma CreateAsset_absent:
  assumes "fmlookup (world l) k = None"
  shows "CreateAsset J ctx l d k p b s t y r =
     (case ParseInt b of
        Inl err \<Rightarrow> (l, Some err)
      | Inr bal \<Rightarrow>
          (case ParseInt t of
             Inl err \<Rightarrow> (l, Some err)
           | Inr tamt \<Rightarrow>
               (case Marshal J \<lparr>DEALERID = d, MSISDN = k, MPIN = p, BALANCE = bal, STATUS = s,
                                TRANSAMOUNT = tamt, TRANSTYPE = y, REMARKS = r\<rparr> of
                  Inl err \<Rightarrow> (l, Some (JSONError err))
                | Inr raw \<Rightarrow> PutState ctx l k raw)))"
  using assms by (simp add: CreateAsset_def exists_eq Let_def split: sum.splits)

lemma UpdateAsset_absent:
  assumes "fmlookup (world l) k = None"
  shows "UpdateAsset J ctx l d k p b s t y r = (l, Some (ErrorString ''not found''))"
  using assms by (simp add: UpdateAsset_def exists_eq)

lemma UpdateAsset_present:
  assumes "fmlookup (world l) k = Some v"
  shows "UpdateAsset J ctx l d k p b s t y r =
     (case ParseInt b of
        Inl err \<Rightarrow> (l, Some err)
      | Inr bal \<Rightarrow>
          (case ParseInt t of
             Inl err \<Rightarrow> (l, Some err)
           | Inr tamt \<Rightarrow>
               (case Marshal J \<lparr>DEALERID = d, MSISDN = k, MPIN = p, BALANCE = bal, STATUS = s,
                                TRANSAMOUNT = tamt, TRANSTYPE = y, REMARKS = r\<rparr> of
                  Inl err \<Rightarrow> (l, Some (JSONError err))
                | Inr raw \<Rightarrow> PutState ctx l k raw)))"
  using assms by (simp add: UpdateAsset_def exists_eq Let_def split: sum.splits)

lemma DeleteAsset_absent:
  assumes "fmlookup (world l) k = None"
  shows "DeleteAsset ctx l k = (l, Some (ErrorString ''not found''))"
  using assms by (simp add: DeleteAsset_def exists_eq)

lemma DeleteAsset_present:
  assumes "fmlookup (world l) k = Some v"
  shows "DeleteAsset ctx l k = DelState ctx l k"
  using assms by (simp add: DeleteAsset_def exists_eq)

lemma ReadAsset_eq:
  "ReadAsset J l k =
     (case fmlookup (world l) k of
        None \<Rightarrow> Inl (ErrorString ''not found'')
      | Some b \<Rightarrow> (case Unmarshal J b of Inl err \<Rightarrow> Inl (JSONError err) | Inr acc \<Rightarrow> Inr acc))"
  by (simp add: ReadAsset_def GetState_def)

lemma world_PutState:
  "world (fst (PutState ctx l k v)) = (if k = [] then world l else fmupd k v (world l))"
  by (simp add: PutState_def)

lemma world_DelState: "world (fst (DelState ctx l k)) = fmdrop k (world l)"
  by (simp add: DelState_def)

text \<open>
  Claim C2. In every ledger that holds a record for \<open>subscriberID\<close>, \<open>CreateAsset\<close> on that
  subscriber returns the error "asset exists" (\<open>AlreadyExists\<close>) and hands back the ledger it
  was given: nothing is written, so the existing record stays as it was.
\<close>

theorem C2_create_existing_fails:
  assumes "fmlookup (world l) subscriberID = Some v"
  shows "CreateAsset J ctx l dealerID subscriberID pin balanceStr status transAmountStr transType
           remarks = (l, Some AlreadyExists)"
  using assms by (simp add: CreateAsset_present AlreadyExists_def)

theorem C2_create_existing_fails_witness:
  "fmlookup (world ledger1) ''9990001111'' = Some document1 \<and>
   CreateAsset sample_codec tx2 ledger1 ''D2'' ''9990001111'' ''4321'' ''750'' ''BLOCKED'' ''-250''
     ''DEBIT'' ''topup'' = (ledger1, Some (ErrorString ''asset exists''))"
proof -
  have present: "fmlookup (world ledger1) ''9990001111'' = Some document1"
    by (simp add: ledger1_def)
  from C2_create_existing_fails [OF present] present show ?thesis
    by (simp add: AlreadyExists_def)
qed

text \<open>
  Claim C3. In every ledger that holds no record for \<open>subscriberID\<close>, both \<open>UpdateAsset\<close> and
  \<open>DeleteAsset\<close> on that subscriber return the error "not found" (\<open>NotFound\<close>), and the ledger
  after the failed call is the ledger before it.
\<close>

theorem C3_update_delete_missing_fail:
  assumes "fmlookup (world l) subscriberID = None"
  shows "UpdateAsset J ctx l dealerID subscriberID pin balanceStr status transAmountStr transType
           remarks = (l, Some NotFound) \<and>
         DeleteAsset ctx l subscriberID = (l, Some NotFound)"
  using assms by (simp add: UpdateAsset_absent DeleteAsset_absent NotFound_def)

theorem C3_update_delete_missing_fail_witness:
  "fmlookup (world ledger1) ''9990002222'' = None \<and>
   UpdateAsset sample_codec tx2 ledger1 ''D2'' ''9990002222'' ''4321'' ''750'' ''BLOCKED'' ''-250''
     ''DEBIT'' ''topup'' = (ledger1, Some (ErrorString ''not found'')) \<and>
   DeleteAsset tx2 ledger1 ''9990002222'' = (ledger1, Some (ErrorString ''not found''))"
proof -
  have absent: "fmlookup (world ledger1) ''9990002222'' = None"
    by (simp add: ledger1_def)
  from C3_update_delete_missing_fail [OF absent] absent show ?thesis
    by (simp add: NotFound_def)
qed

lemma is_int64_literal_iff: "is_int64_literal s \<longleftrightarrow> (\<exists>n. parses_int64 s n)"
  by (auto simp: is_int64_literal_def parses_int64_def split: option.splits)

lemma ParseInt_literal:
  assumes "is_int64_literal s"
  shows "\<exists>w. ParseInt s = Inr w"
  using assms ParseInt_accepts unfolding is_int64_literal_iff by blast

lemma ParseInt_not_literal:
  assumes "\<not> is_int64_literal s"
  shows "\<exists>k. ParseInt s = Inl (NumError ''ParseInt'' s k)"
  using assms ParseInt_rejects unfolding is_int64_literal_iff by blast

lemma int_literal_1000: "parses_int64 ''1000'' 1000"
  by (simp add: parses_int64_def int_literal_def decimal_value_def is_digit_def byte_def)

lemma int_literal_0: "parses_int64 ''0'' 0"
  by (simp add: parses_int64_def int_literal_def decimal_value_def is_digit_def byte_def)

lemma ledger1_created:
  "CreateAsset sample_codec tx1 empty_ledger ''D1'' ''9990001111'' ''1234'' ''1000'' ''ACTIVE'' ''0''
     ''NA'' ''init'' = (ledger1, None)"
proof -
  have absent: "fmlookup (world empty_ledger) ''9990001111'' = None"
    by (simp add: empty_ledger_def)
  have enc: "Marshal sample_codec \<lparr>DEALERID = ''D1'', MSISDN = ''9990001111'', MPIN = ''1234'',
      BALANCE = 1000, STATUS = ''ACTIVE'', TRANSAMOUNT = 0, TRANSTYPE = ''NA'',
      REMARKS = ''init''\<rparr> = Inr document1"
    by (simp add: sample_codec_def table_codec_def account1_def)
  have "CreateAsset sample_codec tx1 empty_ledger ''D1'' ''9990001111'' ''1234'' ''1000'' ''ACTIVE''
      ''0'' ''NA'' ''init'' = PutState tx1 empty_ledger ''9990001111'' document1"
    using ParseInt_accepts [OF int_literal_1000] ParseInt_accepts [OF int_literal_0]
    by (simp add: CreateAsset_absent [OF absent] enc)
  then show ?thesis
    by (simp add: PutState_def ledger1_def empty_ledger_def tx1_def)
qed

lemma amount_error_iff:
  fixes f :: "int64 \<Rightarrow> int64 \<Rightarrow> Account"
  defines "res \<equiv> \<lambda>J ctx l k b t.
     (case ParseInt b of
        Inl err \<Rightarrow> (l, Some err)
      | Inr bal \<Rightarrow>
          (case ParseInt t of
             Inl err \<Rightarrow> (l, Some err)
           | Inr tamt \<Rightarrow>
               (case Marshal J (f bal tamt) of
                  Inl err \<Rightarrow> (l, Some (JSONError err))
                | Inr raw \<Rightarrow> PutState ctx l k raw)))"
  shows "((\<exists>e. snd (res J ctx l k b t) = Some e \<and> InvalidAmount e)
            \<longleftrightarrow> \<not> (is_int64_literal b \<and> is_int64_literal t)) \<and>
         (\<not> (is_int64_literal b \<and> is_int64_literal t) \<longrightarrow> fst (res J ctx l k b t) = l)"
proof (cases "is_int64_literal b")
  case False
  from ParseInt_not_literal [OF this] show ?thesis using False by (auto simp: res_def)
next
  case b: True
  from ParseInt_literal [OF b] obtain bal where pb: "ParseInt b = Inr bal" by blast
  show ?thesis
  proof (cases "is_int64_literal t")
    case False
    from ParseInt_not_literal [OF this] show ?thesis using False pb by (auto simp: res_def)
  next
    case True
    from ParseInt_literal [OF True] obtain tamt where pt: "ParseInt t = Inr tamt" by blast
    show ?thesis using b True pb pt
      by (auto simp: res_def PutState_def split: sum.splits)
  qed
qed

text \<open>
  Claim C4. \<open>CreateAsset\<close> on an absent key and \<open>UpdateAsset\<close> on a present key return the
  \<open>NumError\<close> of \<open>ParseInt\<close> (\<open>InvalidAmount\<close>) exactly when the balance or the transaction
  amount is not a base-10 literal of a signed 64-bit integer: any sign and any value in range
  is accepted, anything else is rejected. On that failure the ledger is the one passed in.
\<close>

theorem C4_invalid_amount_iff:
  assumes absent: "fmlookup (world l) k = None"
    and present: "fmlookup (world m) k' = Some v"
  shows "((\<exists>e. snd (CreateAsset J ctx l dealerID k pin balanceStr status transAmountStr transType
                   remarks) = Some e \<and> InvalidAmount e)
           \<longleftrightarrow> \<not> (is_int64_literal balanceStr \<and> is_int64_literal transAmountStr)) \<and>
         (\<not> (is_int64_literal balanceStr \<and> is_int64_literal transAmountStr) \<longrightarrow>
            fst (CreateAsset J ctx l dealerID k pin balanceStr status transAmountStr transType
                   remarks) = l) \<and>
         ((\<exists>e. snd (UpdateAsset J ctx m dealerID k' pin balanceStr status transAmountStr transType
                   remarks) = Some e \<and> InvalidAmount e)
           \<longleftrightarrow> \<not> (is_int64_literal balanceStr \<and> is_int64_literal transAmountStr)) \<and>
         (\<not> (is_int64_literal balanceStr \<and> is_int64_literal transAmountStr) \<longrightarrow>
            fst (UpdateAsset J ctx m dealerID k' pin balanceStr status transAmountStr transType
                   remarks) = m)"
  unfolding CreateAsset_absent [OF absent] UpdateAsset_present [OF present]
  using amount_error_iff [where J = J and ctx = ctx and l = l and k = k and b = balanceStr
      and t = transAmountStr and f = "\<lambda>bal tamt. \<lparr>DEALERID = dealerID, MSISDN = k, MPIN = pin,
      BALANCE = bal, STATUS = status, TRANSAMOUNT = tamt, TRANSTYPE = transType,
      REMARKS = remarks\<rparr>"]
    amount_error_iff [where J = J and ctx = ctx and l = m and k = k' and b = balanceStr
      and t = transAmountStr and f = "\<lambda>bal tamt. \<lparr>DEALERID = dealerID, MSISDN = k', MPIN = pin,
      BALANCE = bal, STATUS = status, TRANSAMOUNT = tamt, TRANSTYPE = transType,
      REMARKS = remarks\<rparr>"]
  by simp

lemma abc_not_literal: "\<not> is_int64_literal ''abc''"
  by (simp add: is_int64_literal_def int_literal_def is_digit_def byte_def)

lemma int_literal_750: "parses_int64 ''750'' 750"
  by (simp add: parses_int64_def int_literal_def decimal_value_def is_digit_def byte_def)

lemma int_literal_minus_250: "parses_int64 ''-250'' (- 250)"
  by (simp add: parses_int64_def int_literal_def decimal_value_def is_digit_def byte_def)

section \<open>Queries, history and the frame of a call\<close>

lemma GetHistoryForKey_eq: "GetHistoryForKey l k = Inr (map Inr (key_log l k))"
  by (simp add: GetHistoryForKey_def key_log_def case_prod_unfold comp_def)

lemma GetAssetHistory_loop_entries:
  assumes "\<forall>r\<in>set recs. history_entry J r = Inr (f r)"
  shows "GetAssetHistory_loop J (map Inr recs) h = Inr (h @ map f recs)"
  using assms by (induction recs arbitrary: h) simp_all

lemma GetAssetHistory_loop_result:
  assumes "GetAssetHistory_loop J (map Inr recs) h = Inr h'"
  shows "\<exists>es. h' = h @ es \<and> list_all2 (\<lambda>r e. history_entry J r = Inr e) recs es"
  using assms
proof (induction recs arbitrary: h)
  case Nil
  then show ?case by simp
next
  case (Cons r recs)
  from Cons.prems obtain e where e: "history_entry J r = Inr e"
    and rest: "GetAssetHistory_loop J (map Inr recs) (h @ [e]) = Inr h'"
    by (auto split: sum.splits)
  from Cons.IH [OF rest] obtain es where "h' = (h @ [e]) @ es"
    and "list_all2 (\<lambda>r e. history_entry J r = Inr e) recs es" by blast
  with e have "h' = h @ (e # es) \<and> list_all2 (\<lambda>r e. history_entry J r = Inr e) (r # recs) (e # es)"
    by simp
  then show ?case by blast
qed

lemma GetAssetHistory_eq: "GetAssetHistory J l k = GetAssetHistory_loop J (map Inr (key_log l k)) []"
  by (simp add: GetAssetHistory_def GetHistoryForKey_eq)

lemma GetAllAssets_loop_decoded:
  assumes "\<forall>kv\<in>set kvs. Unmarshal J (kv_Value kv) = Inr (f kv)"
  shows "GetAllAssets_loop J (map Inr kvs) out = Inr (out @ map f kvs)"
  using assms by (induction kvs arbitrary: out) simp_all

lemma GetStateByRange_all:
  "GetStateByRange l [] [] =
     Inr (map Inr (map (\<lambda>k. \<lparr>kv_Key = k, kv_Value = the (fmlookup (world l) k)\<rparr>)
            (sorted_list_of_fset (fmdom (world l)))))"
  by (simp add: GetStateByRange_def in_range_def sorted_list_of_fmap_def comp_def)

lemma history_entry_no_snapshot:
  assumes "km_Value rec = None \<or> km_IsDelete rec"
  shows "history_entry J rec = Inr \<lparr>TxID = km_TxId rec, Value = None, IsDelete = km_IsDelete rec,
           Timestamp = GetSeconds (km_Timestamp rec)\<rparr>"
  using assms by (auto simp: history_entry_def)

lemma history_entry_snapshot_iff:
  assumes "history_entry J rec = Inr e"
  shows "Value e \<noteq> None \<longleftrightarrow> km_Value rec \<noteq> None \<and> \<not> km_IsDelete rec"
  using assms by (auto simp: history_entry_def split: if_splits sum.splits)

text \<open>
  Claim C10. A history entry carries a snapshot only when the change-log record has a value
  and is not a deletion. A record that is no deletion and has no value gives an entry
  without snapshot and with the deletion flag false; a deletion gives an entry without
  snapshot whatever value it carries. In both cases the JSON decoder plays no part, so a
  key whose records are all of these kinds has a history for every codec. Every entry
  \<open>GetAssetHistory\<close> returns is the \<open>history_entry\<close> of the record at its position.
\<close>

theorem C10_history_snapshot_rule:
  "(km_Value rec = None \<or> km_IsDelete rec \<longrightarrow>
      history_entry J rec = Inr \<lparr>TxID = km_TxId rec, Value = None, IsDelete = km_IsDelete rec,
                                 Timestamp = GetSeconds (km_Timestamp rec)\<rparr>) \<and>
   (\<forall>e. history_entry J rec = Inr e \<longrightarrow>
      (Value e \<noteq> None \<longleftrightarrow> km_Value rec \<noteq> None \<and> \<not> km_IsDelete rec)) \<and>
   (\<forall>h. GetAssetHistory J l k = Inr h \<longrightarrow>
      list_all2 (\<lambda>r e. history_entry J r = Inr e) (key_log l k) h) \<and>
   ((\<forall>r \<in> set (key_log l k). km_Value r = None \<or> km_IsDelete r) \<longrightarrow>
      GetAssetHistory J l k =
        Inr (map (\<lambda>r. \<lparr>TxID = km_TxId r, Value = None, IsDelete = km_IsDelete r,
                        Timestamp = GetSeconds (km_Timestamp r)\<rparr>) (key_log l k)))"
proof (intro conjI impI allI)
  assume "km_Value rec = None \<or> km_IsDelete rec"
  then show "history_entry J rec = Inr \<lparr>TxID = km_TxId rec, Value = None,
      IsDelete = km_IsDelete rec, Timestamp = GetSeconds (km_Timestamp rec)\<rparr>"
    by (rule history_entry_no_snapshot)
next
  fix e assume "history_entry J rec = Inr e"
  then show "Value e \<noteq> None \<longleftrightarrow> km_Value rec \<noteq> None \<and> \<not> km_IsDelete rec"
    by (rule history_entry_snapshot_iff)
next
  fix h assume "GetAssetHistory J l k = Inr h"
  then have "GetAssetHistory_loop J (map Inr (key_log l k)) [] = Inr h"
    by (simp add: GetAssetHistory_eq)
  from GetAssetHistory_loop_result [OF this]
  show "list_all2 (\<lambda>r e. history_entry J r = Inr e) (key_log l k) h" by simp
next
  assume "\<forall>r \<in> set (key_log l k). km_Value r = None \<or> km_IsDelete r"
  then have "\<forall>r \<in> set (key_log l k). history_entry J r =
      Inr \<lparr>TxID = km_TxId r, Value = None, IsDelete = km_IsDelete r,
           Timestamp = GetSeconds (km_Timestamp r)\<rparr>"
    by (simp add: history_entry_no_snapshot)
  from GetAssetHistory_loop_entries [OF this, of "[]"]
  show "GetAssetHistory J l k =
      Inr (map (\<lambda>r. \<lparr>TxID = km_TxId r, Value = None, IsDelete = km_IsDelete r,
                      Timestamp = GetSeconds (km_Timestamp r)\<rparr>) (key_log l k))"
    by (simp add: GetAssetHistory_eq)
qed

lemma odd_key_log:
  "key_log odd_ledger ''9990003333'' =
     [\<lparr>km_TxId = ''tx-8'', km_Value = None, km_Timestamp = None, km_IsDelete = False\<rparr>,
      \<lparr>km_TxId = ''tx-9'', km_Value = Some ''not json'',
       km_Timestamp = Some \<lparr>seconds = 1700000180, nanos = 0\<rparr>, km_IsDelete = True\<rparr>]"
  by (simp add: key_log_def odd_ledger_def)

theorem C10_history_snapshot_rule_witness:
  "Unmarshal sample_codec ''not json'' = Inl ''invalid character'' \<and>
   GetAssetHistory sample_codec odd_ledger ''9990003333'' =
     Inr [\<lparr>TxID = ''tx-8'', Value = None, IsDelete = False, Timestamp = 0\<rparr>,
          \<lparr>TxID = ''tx-9'', Value = None, IsDelete = True, Timestamp = 1700000180\<rparr>]"
proof -
  have undecodable: "Unmarshal sample_codec ''not json'' = Inl ''invalid character''"
    by (simp add: sample_codec_def table_codec_def document1_def document2_def document3_def)
  have "\<forall>r \<in> set (key_log odd_ledger ''9990003333''). km_Value r = None \<or> km_IsDelete r"
    by (simp add: odd_key_log)
  with C10_history_snapshot_rule [of _ sample_codec odd_ledger "''9990003333''"]
  have "GetAssetHistory sample_codec odd_ledger ''9990003333'' =
      Inr (map (\<lambda>r. \<lparr>TxID = km_TxId r, Value = None, IsDelete = km_IsDelete r,
                      Timestamp = GetSeconds (km_Timestamp r)\<rparr>)
             (key_log odd_ledger ''9990003333''))"
    by blast
  with undecodable show ?thesis by (simp add: odd_key_log)
qed

lemma key_log_empty:
  assumes "k \<notin> fst ` set (changelog l)"
  shows "key_log l k = []"
proof -
  have "filter (\<lambda>(k', m). k' = k) (changelog l) = []"
    using assms by (force simp: filter_empty_conv)
  then show ?thesis by (simp add: key_log_def)
qed

lemma GetAllAssets_decoded:
  assumes "\<forall>k v. fmlookup (world l) k = Some v \<longrightarrow> (\<exists>a. Unmarshal J v = Inr a)"
  shows "\<exists>as. GetAllAssets J l = Inr as \<and>
           map Inr as = map (ReadAsset J l) (sorted_list_of_fset (fmdom (world l)))"
proof -
  define ks where "ks = sorted_list_of_fset (fmdom (world l))"
  define kvs where "kvs = map (\<lambda>k. \<lparr>kv_Key = k, kv_Value = the (fmlookup (world l) k)\<rparr>) ks"
  define f :: "KV \<Rightarrow> Account" where "f = (\<lambda>kv. projr (Unmarshal J (kv_Value kv)))"
  have dec: "Unmarshal J (the (fmlookup (world l) k)) = Inr (projr (Unmarshal J (the (fmlookup (world l) k))))"
    if "k \<in> set ks" for k
  proof -
    from that have "k |\<in>| fmdom (world l)" by (simp add: ks_def)
    then obtain v where v: "fmlookup (world l) k = Some v" by (auto simp: fmlookup_dom_iff)
    with assms obtain a where "Unmarshal J v = Inr a" by blast
    with v show ?thesis by simp
  qed
  then have "\<forall>kv\<in>set kvs. Unmarshal J (kv_Value kv) = Inr (f kv)"
    by (auto simp: kvs_def f_def)
  from GetAllAssets_loop_decoded [OF this, of "[]"]
  have all: "GetAllAssets J l = Inr (map f kvs)"
    by (simp add: GetAllAssets_def GetStateByRange_all kvs_def ks_def)
  have "Inr (f \<lparr>kv_Key = k, kv_Value = the (fmlookup (world l) k)\<rparr>) = ReadAsset J l k"
    if "k \<in> set ks" for k
  proof -
    from that have "k |\<in>| fmdom (world l)" by (simp add: ks_def)
    then obtain v where v: "fmlookup (world l) k = Some v" by (auto simp: fmlookup_dom_iff)
    with assms obtain a where "Unmarshal J v = Inr a" by blast
    with v show ?thesis by (simp add: ReadAsset_eq f_def)
  qed
  then have "map Inr (map f kvs) = map (ReadAsset J l) ks"
    by (simp add: kvs_def comp_def)
  with all show ?thesis unfolding ks_def by blast
qed

text \<open>
  Claim C8. \<open>GetAllAssets\<close> on a ledger with an empty world state returns the empty list, for
  every codec. \<open>GetAssetHistory\<close> of a key that the change log never mentions returns the
  empty list. When every stored document decodes, \<open>GetAllAssets\<close> returns one record per
  stored key, the one \<open>ReadAsset\<close> returns for it, with the keys in strictly increasing
  byte-wise lexical order.
\<close>

theorem C8_queries_over_absent_data:
  "(world l = fmempty \<longrightarrow> GetAllAssets J l = Inr []) \<and>
   (k \<notin> fst ` set (changelog l) \<longrightarrow> GetAssetHistory J l k = Inr []) \<and>
   ((\<forall>k v. fmlookup (world l) k = Some v \<longrightarrow> (\<exists>a. Unmarshal J v = Inr a)) \<longrightarrow>
      (\<exists>ks as. sorted_wrt (<) ks \<and> set ks = fmdom' (world l) \<and>
         GetAllAssets J l = Inr as \<and> map Inr as = map (ReadAsset J l) ks))"
proof (intro conjI impI)
  assume "world l = fmempty"
  then show "GetAllAssets J l = Inr []"
    by (simp add: GetAllAssets_def GetStateByRange_all sorted_list_of_fset.rep_eq)
next
  assume "k \<notin> fst ` set (changelog l)"
  then show "GetAssetHistory J l k = Inr []"
    by (simp add: GetAssetHistory_eq key_log_empty)
next
  let ?ks = "sorted_list_of_fset (fmdom (world l))"
  assume "\<forall>k v. fmlookup (world l) k = Some v \<longrightarrow> (\<exists>a. Unmarshal J v = Inr a)"
  from GetAllAssets_decoded [OF this] obtain as where
    "GetAllAssets J l = Inr as" and "map Inr as = map (ReadAsset J l) ?ks" by blast
  moreover have "sorted_wrt (<) ?ks"
    by (simp add: sorted_list_of_fset.rep_eq)
  moreover have "set ?ks = fmdom' (world l)"
    by (simp add: fmdom'_alt_def)
  ultimately show "\<exists>ks as. sorted_wrt (<) ks \<and> set ks = fmdom' (world l) \<and>
      GetAllAssets J l = Inr as \<and> map Inr as = map (ReadAsset J l) ks"
    by blast
qed

lemma key_log_PutState:
  "key_log (fst (PutState ctx l k v)) k' =
     (if k' = k \<and> k \<noteq> []
      then key_log l k' @ [\<lparr>km_TxId = GetTxID ctx, km_Value = Some v,
                              km_Timestamp = Some (GetTxTimestamp ctx), km_IsDelete = False\<rparr>]
      else key_log l k')"
  by (simp add: PutState_def key_log_def)

lemma key_log_DelState:
  "key_log (fst (DelState ctx l k)) k' =
     (if k' = k
      then key_log l k' @ [\<lparr>km_TxId = GetTxID ctx, km_Value = None,
                              km_Timestamp = Some (GetTxTimestamp ctx), km_IsDelete = True\<rparr>]
      else key_log l k')"
  by (simp add: DelState_def key_log_def)

lemma CreateAsset_effect:
  "fst (CreateAsset J ctx l d k p b s t y r) = l \<or>
   (fmlookup (world l) k = None \<and>
    (\<exists>bal tamt raw.
       Marshal J \<lparr>DEALERID = d, MSISDN = k, MPIN = p, BALANCE = bal, STATUS = s,
                  TRANSAMOUNT = tamt, TRANSTYPE = y, REMARKS = r\<rparr> = Inr raw \<and>
       CreateAsset J ctx l d k p b s t y r = PutState ctx l k raw))"
proof (cases "fmlookup (world l) k")
  case None
  then show ?thesis
    by (auto simp: CreateAsset_absent split: sum.splits)
next
  case (Some v)
  then show ?thesis by (simp add: CreateAsset_present)
qed

lemma UpdateAsset_effect:
  "fst (UpdateAsset J ctx l d k p b s t y r) = l \<or>
   (fmlookup (world l) k \<noteq> None \<and>
    (\<exists>bal tamt raw.
       Marshal J \<lparr>DEALERID = d, MSISDN = k, MPIN = p, BALANCE = bal, STATUS = s,
                  TRANSAMOUNT = tamt, TRANSTYPE = y, REMARKS = r\<rparr> = Inr raw \<and>
       UpdateAsset J ctx l d k p b s t y r = PutState ctx l k raw))"
proof (cases "fmlookup (world l) k")
  case None
  then show ?thesis by (simp add: UpdateAsset_absent)
next
  case (Some v)
  then show ?thesis
    by (auto simp: UpdateAsset_present split: sum.splits)
qed

lemma DeleteAsset_effect:
  "fst (DeleteAsset ctx l k) = l \<or>
   (fmlookup (world l) k \<noteq> None \<and> DeleteAsset ctx l k = DelState ctx l k)"
  by (cases "fmlookup (world l) k") (simp_all add: DeleteAsset_absent DeleteAsset_present)

lemma CreateAsset_success:
  assumes "CreateAsset J ctx l d k p b s t y r = (l', None)"
  shows "\<exists>raw. PutState ctx l k raw = (l', None)"
proof -
  have "snd (CreateAsset J ctx l d k p b s t y r) = None" using assms by simp
  then have "fmlookup (world l) k = None"
    by (cases "fmlookup (world l) k") (simp_all add: CreateAsset_present)
  with assms show ?thesis
    by (auto simp: CreateAsset_absent split: sum.splits)
qed

lemma UpdateAsset_success:
  assumes "UpdateAsset J ctx l d k p b s t y r = (l', None)"
  shows "\<exists>raw. PutState ctx l k raw = (l', None)"
proof -
  have "snd (UpdateAsset J ctx l d k p b s t y r) = None" using assms by simp
  then obtain v where "fmlookup (world l) k = Some v"
    by (cases "fmlookup (world l) k") (simp_all add: UpdateAsset_absent)
  with assms show ?thesis
    by (auto simp: UpdateAsset_present split: sum.splits)
qed

lemma DeleteAsset_success:
  assumes "DeleteAsset ctx l k = (l', None)"
  shows "DelState ctx l k = (l', None)"
proof -
  have "snd (DeleteAsset ctx l k) = None" using assms by simp
  then obtain v where "fmlookup (world l) k = Some v"
    by (cases "fmlookup (world l) k") (simp_all add: DeleteAsset_absent)
  with assms show ?thesis by (simp add: DeleteAsset_present)
qed

lemma PutState_success:
  assumes "PutState ctx l k raw = (l', None)"
  shows "k \<noteq> []" and "world l' = fmupd k raw (world l)"
  using assms by (auto simp: PutState_def split: if_splits)

lemma ReadAsset_after_PutState:
  assumes "PutState ctx l k raw = (l', None)" and "ReadAsset J l' k = Inr a"
  shows "Unmarshal J raw = Inr a"
proof -
  from assms(1) have "world l' = fmupd k raw (world l)"
    by (rule PutState_success)
  with assms(2) show ?thesis
    by (simp add: ReadAsset_eq split: sum.splits)
qed

text \<open>
  Claim C6. Take a key \<open>k\<close> the change log does not mention. \<open>CreateAsset\<close>, \<open>UpdateAsset\<close>
  and \<open>DeleteAsset\<close> on \<open>k\<close> succeed in that order, in transactions \<open>ctx1\<close>, \<open>ctx2\<close>, \<open>ctx3\<close>;
  between and after them the ledger may change in any way that leaves \<open>k\<close> untouched. Then
  \<open>GetAssetHistory\<close> returns exactly three entries in commit order: the record read after the
  create and the record read after the update, each with the identifier and the seconds of
  its transaction and the deletion flag unset, then an entry with the flag set and no
  snapshot.
\<close>

theorem C6_history_of_create_update_delete:
  assumes fresh: "k \<notin> fst ` set (changelog l0)"
    and create: "CreateAsset J ctx1 l0 d1 k p1 b1 s1 t1 y1 r1 = (l1, None)"
    and read1: "ReadAsset J l1 k = Inr a1"
    and others1: "key_untouched k l1 m1"
    and update: "UpdateAsset J ctx2 m1 d2 k p2 b2 s2 t2 y2 r2 = (l2, None)"
    and read2: "ReadAsset J l2 k = Inr a2"
    and others2: "key_untouched k l2 m2"
    and delete: "DeleteAsset ctx3 m2 k = (l3, None)"
    and others3: "key_untouched k l3 m3"
  shows "GetAssetHistory J m3 k =
     Inr [\<lparr>TxID = GetTxID ctx1, Value = Some a1, IsDelete = False,
           Timestamp = seconds (GetTxTimestamp ctx1)\<rparr>,
          \<lparr>TxID = GetTxID ctx2, Value = Some a2, IsDelete = False,
           Timestamp = seconds (GetTxTimestamp ctx2)\<rparr>,
          \<lparr>TxID = GetTxID ctx3, Value = None, IsDelete = True,
           Timestamp = seconds (GetTxTimestamp ctx3)\<rparr>]"
proof -
  from CreateAsset_success [OF create] obtain raw1
    where put1: "PutState ctx1 l0 k raw1 = (l1, None)" by blast
  from UpdateAsset_success [OF update] obtain raw2
    where put2: "PutState ctx2 m1 k raw2 = (l2, None)" by blast
  note del = DeleteAsset_success [OF delete]
  have dec1: "Unmarshal J raw1 = Inr a1" using put1 read1 by (rule ReadAsset_after_PutState)
  have dec2: "Unmarshal J raw2 = Inr a2" using put2 read2 by (rule ReadAsset_after_PutState)
  let ?r1 = "\<lparr>km_TxId = GetTxID ctx1, km_Value = Some raw1,
               km_Timestamp = Some (GetTxTimestamp ctx1), km_IsDelete = False\<rparr>"
  let ?r2 = "\<lparr>km_TxId = GetTxID ctx2, km_Value = Some raw2,
               km_Timestamp = Some (GetTxTimestamp ctx2), km_IsDelete = False\<rparr>"
  let ?r3 = "\<lparr>km_TxId = GetTxID ctx3, km_Value = None,
               km_Timestamp = Some (GetTxTimestamp ctx3), km_IsDelete = True\<rparr>"
  have key: "k \<noteq> []" using put1 by (rule PutState_success)
  have "key_log l1 k = [?r1]"
    using key_log_PutState [of ctx1 l0 k raw1 k] put1 key_log_empty [OF fresh] key by simp
  with others1 have "key_log m1 k = [?r1]" by (simp add: key_untouched_def)
  then have "key_log l2 k = [?r1, ?r2]"
    using key_log_PutState [of ctx2 m1 k raw2 k] put2 key by simp
  with others2 have "key_log m2 k = [?r1, ?r2]" by (simp add: key_untouched_def)
  then have "key_log l3 k = [?r1, ?r2, ?r3]"
    using key_log_DelState [of ctx3 m2 k k] del by simp
  with others3 have "key_log m3 k = [?r1, ?r2, ?r3]" by (simp add: key_untouched_def)
  then show ?thesis
    by (simp add: GetAssetHistory_eq history_entry_def dec1 dec2)
qed

lemma key_untouched_refl: "key_untouched k l l"
  by (simp add: key_untouched_def)

lemma ParseInt_1000: "ParseInt ''1000'' = Inr 1000"
  using ParseInt_accepts [OF int_literal_1000] by simp

lemma ParseInt_0: "ParseInt ''0'' = Inr 0"
  using ParseInt_accepts [OF int_literal_0] by simp

lemma ParseInt_750: "ParseInt ''750'' = Inr 750"
  using ParseInt_accepts [OF int_literal_750] by simp

lemma ParseInt_minus_250: "ParseInt ''-250'' = Inr (- 250)"
  using ParseInt_accepts [OF int_literal_minus_250] by simp

lemma ledger2_updated:
  "UpdateAsset sample_codec tx2 ledger1 ''D2'' ''9990001111'' ''4321'' ''750'' ''BLOCKED'' ''-250''
     ''DEBIT'' ''topup'' = (ledger2, None)"
proof -
  have present: "fmlookup (world ledger1) ''9990001111'' = Some document1"
    by (simp add: ledger1_def)
  have enc: "Marshal sample_codec \<lparr>DEALERID = ''D2'', MSISDN = ''9990001111'', MPIN = ''4321'',
      BALANCE = 750, STATUS = ''BLOCKED'', TRANSAMOUNT = - 250, TRANSTYPE = ''DEBIT'',
      REMARKS = ''topup''\<rparr> = Inr document2"
    by (simp add: sample_codec_def table_codec_def account1_def account2_def)
  have "UpdateAsset sample_codec tx2 ledger1 ''D2'' ''9990001111'' ''4321'' ''750'' ''BLOCKED''
      ''-250'' ''DEBIT'' ''topup'' = PutState tx2 ledger1 ''9990001111'' document2"
    by (simp add: UpdateAsset_present [OF present] ParseInt_750 ParseInt_minus_250 enc)
  then show ?thesis
    by (simp add: PutState_def ledger2_def tx2_def)
qed

lemma ledger3_deleted: "DeleteAsset tx3 ledger2 ''9990001111'' = (ledger3, None)"
proof -
  have present: "fmlookup (world ledger2) ''9990001111'' = Some document2"
    by (simp add: ledger2_def)
  show ?thesis
    by (simp add: DeleteAsset_present [OF present] DelState_def ledger3_def tx3_def)
qed

lemma read_ledger1: "ReadAsset sample_codec ledger1 ''9990001111'' = Inr account1"
  by (simp add: ReadAsset_eq ledger1_def sample_codec_def table_codec_def document1_def
      document2_def)

lemma read_ledger2: "ReadAsset sample_codec ledger2 ''9990001111'' = Inr account2"
  by (simp add: ReadAsset_eq ledger2_def sample_codec_def table_codec_def document1_def
      document2_def)

theorem C6_history_of_create_update_delete_witness:
  "GetAssetHistory sample_codec ledger3 ''9990001111'' =
     Inr [\<lparr>TxID = ''tx-1'', Value = Some account1, IsDelete = False, Timestamp = 1700000000\<rparr>,
          \<lparr>TxID = ''tx-2'', Value = Some account2, IsDelete = False, Timestamp = 1700000060\<rparr>,
          \<lparr>TxID = ''tx-3'', Value = None, IsDelete = True, Timestamp = 1700000120\<rparr>]"
proof -
  have fresh: "''9990001111'' \<notin> fst ` set (changelog empty_ledger)"
    by (simp add: empty_ledger_def)
  from C6_history_of_create_update_delete [OF fresh ledger1_created read_ledger1
      key_untouched_refl ledger2_updated read_ledger2 key_untouched_refl ledger3_deleted
      key_untouched_refl]
  show ?thesis by (simp add: tx1_def tx2_def tx3_def)
qed

lemma key_untouched_PutState_other:
  assumes "k \<noteq> k'"
  shows "key_untouched k l (fst (PutState ctx l k' v))"
  using assms by (simp add: key_untouched_def key_log_PutState world_PutState)

lemma key_untouched_DelState_other:
  assumes "k \<noteq> k'"
  shows "key_untouched k l (fst (DelState ctx l k'))"
  using assms by (simp add: key_untouched_def key_log_DelState world_DelState)

lemma key_untouched_PutState_both:
  assumes "key_untouched k l l'"
  shows "key_untouched k (fst (PutState ctx l k' v)) (fst (PutState ctx l' k' v))"
  using assms by (auto simp: key_untouched_def key_log_PutState world_PutState)

lemma key_untouched_DelState_both:
  assumes "key_untouched k l l'"
  shows "key_untouched k (fst (DelState ctx l k')) (fst (DelState ctx l' k'))"
  using assms by (auto simp: key_untouched_def key_log_DelState world_DelState)

lemma CreateAsset_same_view:
  assumes "key_untouched k l l'"
  shows "key_untouched k (fst (CreateAsset J ctx l d k p b s t y r))
           (fst (CreateAsset J ctx l' d k p b s t y r))"
proof (cases "fmlookup (world l) k")
  case None
  moreover from None assms have "fmlookup (world l') k = None" by (simp add: key_untouched_def)
  ultimately show ?thesis
    using assms by (auto simp: CreateAsset_absent key_untouched_PutState_both split: sum.splits)
next
  case (Some v)
  moreover from Some assms have "fmlookup (world l') k = Some v" by (simp add: key_untouched_def)
  ultimately show ?thesis using assms by (simp add: CreateAsset_present)
qed

lemma UpdateAsset_same_view:
  assumes "key_untouched k l l'"
  shows "key_untouched k (fst (UpdateAsset J ctx l d k p b s t y r))
           (fst (UpdateAsset J ctx l' d k p b s t y r))"
proof (cases "fmlookup (world l) k")
  case None
  moreover from None assms have "fmlookup (world l') k = None" by (simp add: key_untouched_def)
  ultimately show ?thesis using assms by (simp add: UpdateAsset_absent)
next
  case (Some v)
  moreover from Some assms have "fmlookup (world l') k = Some v" by (simp add: key_untouched_def)
  ultimately show ?thesis
    using assms by (auto simp: UpdateAsset_present key_untouched_PutState_both split: sum.splits)
qed

lemma DeleteAsset_same_view:
  assumes "key_untouched k l l'"
  shows "key_untouched k (fst (DeleteAsset ctx l k)) (fst (DeleteAsset ctx l' k))"
proof (cases "fmlookup (world l) k")
  case None
  moreover from None assms have "fmlookup (world l') k = None" by (simp add: key_untouched_def)
  ultimately show ?thesis using assms by (simp add: DeleteAsset_absent)
next
  case (Some v)
  moreover from Some assms have "fmlookup (world l') k = Some v" by (simp add: key_untouched_def)
  ultimately show ?thesis
    using assms by (simp add: DeleteAsset_present key_untouched_DelState_both)
qed

lemma ledger_after_same_view:
  assumes "call_key c = Some k" and "key_untouched k l l'"
  shows "key_untouched k (ledger_after J ctx l c) (ledger_after J ctx l' c)"
  using assms
  by (cases c) (simp_all add: CreateAsset_same_view UpdateAsset_same_view DeleteAsset_same_view)

lemma ledger_after_other_key:
  assumes "call_key c \<noteq> Some k"
  shows "key_untouched k l (ledger_after J ctx l c)"
proof (cases c)
  case (CallCreateAsset d m p b s t y r)
  with assms have "k \<noteq> m" by auto
  with CreateAsset_effect [of J ctx l d m p b s t y r] show ?thesis
    unfolding CallCreateAsset
    by (auto simp: key_untouched_refl key_untouched_PutState_other)
next
  case (CallUpdateAsset d m p b s t y r)
  with assms have "k \<noteq> m" by auto
  with UpdateAsset_effect [of J ctx l d m p b s t y r] show ?thesis
    unfolding CallUpdateAsset
    by (auto simp: key_untouched_refl key_untouched_PutState_other)
next
  case (CallDeleteAsset m)
  with assms have "k \<noteq> m" by auto
  with DeleteAsset_effect [of ctx l m] show ?thesis
    unfolding CallDeleteAsset
    by (auto simp: key_untouched_refl key_untouched_DelState_other)
qed (simp_all add: key_untouched_refl)

lemma ledger_after_adds:
  assumes "fmlookup (world l) k = None" and "fmlookup (world (ledger_after J ctx l c)) k \<noteq> None"
  shows "\<exists>d p b s t y r. c = CallCreateAsset d k p b s t y r"
proof (cases c)
  case (CallCreateAsset d m p b s t y r)
  with CreateAsset_effect [of J ctx l d m p b s t y r] assms have "k = m"
    by (auto simp: world_PutState split: if_splits)
  with CallCreateAsset show ?thesis by blast
next
  case (CallUpdateAsset d m p b s t y r)
  with UpdateAsset_effect [of J ctx l d m p b s t y r] assms show ?thesis
    by (auto simp: world_PutState split: if_splits)
next
  case (CallDeleteAsset m)
  with DeleteAsset_effect [of ctx l m] assms show ?thesis
    by (auto simp: world_DelState split: if_splits)
qed (use assms in simp_all)

lemma ledger_after_removes:
  assumes "fmlookup (world l) k \<noteq> None" and "fmlookup (world (ledger_after J ctx l c)) k = None"
  shows "c = CallDeleteAsset k"
proof (cases c)
  case (CallCreateAsset d m p b s t y r)
  with CreateAsset_effect [of J ctx l d m p b s t y r] assms show ?thesis
    by (auto simp: world_PutState split: if_splits)
next
  case (CallUpdateAsset d m p b s t y r)
  with UpdateAsset_effect [of J ctx l d m p b s t y r] assms show ?thesis
    by (auto simp: world_PutState split: if_splits)
next
  case (CallDeleteAsset m)
  with DeleteAsset_effect [of ctx l m] assms show ?thesis
    by (auto simp: world_DelState split: if_splits)
qed (use assms in simp_all)

lemma ledger_after_query:
  assumes "is_query c"
  shows "ledger_after J ctx l c = l"
  using assms by (cases c) simp_all

text \<open>
  Claim C7. For every call \<open>c\<close> and ledger \<open>l\<close>: a key that gains a record was the subscriber
  of a \<open>CreateAsset\<close> call; a key that loses its record was the subscriber of a \<open>DeleteAsset\<close>
  call; every key other than the call's subscriber keeps its record and its change log;
  what the call does to its own key depends only on what the ledger holds about that key;
  and \<open>ReadAsset\<close>, \<open>GetAllAssets\<close> and \<open>GetAssetHistory\<close> leave the ledger as it is.
\<close>

theorem C7_single_key_frame:
  "(fmlookup (world l) k = None \<and> fmlookup (world (ledger_after J ctx l c)) k \<noteq> None \<longrightarrow>
      (\<exists>d p b s t y r. c = CallCreateAsset d k p b s t y r)) \<and>
   (fmlookup (world l) k \<noteq> None \<and> fmlookup (world (ledger_after J ctx l c)) k = None \<longrightarrow>
      c = CallDeleteAsset k) \<and>
   (call_key c \<noteq> Some k \<longrightarrow> key_untouched k l (ledger_after J ctx l c)) \<and>
   (call_key c = Some k \<and> key_untouched k l l' \<longrightarrow>
      key_untouched k (ledger_after J ctx l c) (ledger_after J ctx l' c)) \<and>
   (is_query c \<longrightarrow> ledger_after J ctx l c = l)"
  using ledger_after_adds [of l k J ctx c] ledger_after_removes [of l k J ctx c]
    ledger_after_other_key [of c k l J ctx] ledger_after_same_view [of c k l l' J ctx]
    ledger_after_query [of c J ctx l]
  by blast



section \<open>The sample ledger at work\<close>

lemma int_literal_20: "parses_int64 ''20'' 20"
  by (simp add: parses_int64_def int_literal_def decimal_value_def is_digit_def byte_def)

lemma ParseInt_20: "ParseInt ''20'' = Inr 20"
  using ParseInt_accepts [OF int_literal_20] by simp

lemma ledger_pair_created:
  "CreateAsset sample_codec tx2 ledger1 ''D3'' ''9990000005'' ''0000'' ''20'' ''ACTIVE'' ''20''
     ''CREDIT'' [] = (ledger_pair, None)"
proof -
  have absent: "fmlookup (world ledger1) ''9990000005'' = None"
    by (simp add: ledger1_def)
  have enc: "Marshal sample_codec \<lparr>DEALERID = ''D3'', MSISDN = ''9990000005'', MPIN = ''0000'',
      BALANCE = 20, STATUS = ''ACTIVE'', TRANSAMOUNT = 20, TRANSTYPE = ''CREDIT'',
      REMARKS = []\<rparr> = Inr document3"
    by (simp add: sample_codec_def table_codec_def account1_def account2_def account3_def)
  have "CreateAsset sample_codec tx2 ledger1 ''D3'' ''9990000005'' ''0000'' ''20'' ''ACTIVE'' ''20''
      ''CREDIT'' [] = PutState tx2 ledger1 ''9990000005'' document3"
    by (simp add: CreateAsset_absent [OF absent] ParseInt_20 enc)
  then show ?thesis
    by (simp add: PutState_def ledger_pair_def tx2_def)
qed

lemma sample_codec_inverts:
  assumes "Marshal sample_codec a = Inr raw"
  shows "Unmarshal sample_codec raw = Inr a"
  using assms
  by (auto simp: sample_codec_def table_codec_def document1_def document2_def document3_def
      split: if_splits)

theorem C7_single_key_frame_witness:
  "fmlookup (world ledger1) ''9990000005'' = None \<and>
   fmlookup (world (ledger_after sample_codec tx2 ledger1
      (CallCreateAsset ''D3'' ''9990000005'' ''0000'' ''20'' ''ACTIVE'' ''20'' ''CREDIT'' [])))
      ''9990000005'' = Some document3 \<and>
   key_untouched ''9990001111'' ledger1 (ledger_after sample_codec tx2 ledger1
      (CallCreateAsset ''D3'' ''9990000005'' ''0000'' ''20'' ''ACTIVE'' ''20'' ''CREDIT'' [])) \<and>
   ledger_after sample_codec tx2 ledger1 CallGetAllAssets = ledger1"
proof -
  let ?c = "CallCreateAsset ''D3'' ''9990000005'' ''0000'' ''20'' ''ACTIVE'' ''20'' ''CREDIT'' []"
  have after: "ledger_after sample_codec tx2 ledger1 ?c = ledger_pair"
    by (simp add: ledger_pair_created)
  have other: "call_key ?c \<noteq> Some ''9990001111''" by simp
  have query: "is_query CallGetAllAssets" by simp
  from C7_single_key_frame [of ledger1 "''9990001111''" sample_codec tx2 ?c ledger1] other
  have "key_untouched ''9990001111'' ledger1 (ledger_after sample_codec tx2 ledger1 ?c)"
    by blast
  moreover from C7_single_key_frame [of ledger1 "''9990001111''" sample_codec tx2
      CallGetAllAssets ledger1] query
  have "ledger_after sample_codec tx2 ledger1 CallGetAllAssets = ledger1" by blast
  moreover have "fmlookup (world ledger1) ''9990000005'' = None" by (simp add: ledger1_def)
  moreover have "fmlookup (world (ledger_after sample_codec tx2 ledger1 ?c)) ''9990000005'' =
      Some document3"
    unfolding after by (simp add: ledger_pair_def)
  ultimately show ?thesis by blast
qed

lemma reachable_ledger1: "reachable sample_codec ledger1"
proof -
  have "reachable sample_codec (ledger_after sample_codec tx1 empty_ledger
      (CallCreateAsset ''D1'' ''9990001111'' ''1234'' ''1000'' ''ACTIVE'' ''0'' ''NA'' ''init''))"
    by (rule reachable_call) (rule reachable_empty)
  then show ?thesis by (simp add: ledger1_created)
qed

lemma pair_decodes:
  assumes "fmlookup (world ledger_pair) k = Some v"
  shows "\<exists>a. Unmarshal sample_codec v = Inr a"
  using assms
  by (auto simp: ledger_pair_def ledger1_def sample_codec_def table_codec_def document1_def
      document2_def document3_def split: if_splits)

theorem C8_queries_over_absent_data_witness:
  "GetAllAssets sample_codec empty_ledger = Inr [] \<and>
   GetAssetHistory sample_codec ledger1 ''9990000005'' = Inr [] \<and>
   (\<exists>ks as. sorted_wrt (<) ks \<and> set ks = fmdom' (world ledger_pair) \<and>
      GetAllAssets sample_codec ledger_pair = Inr as \<and>
      map Inr as = map (ReadAsset sample_codec ledger_pair) ks)"
proof -
  have empty: "world empty_ledger = fmempty" by (simp add: empty_ledger_def)
  have unwritten: "''9990000005'' \<notin> fst ` set (changelog ledger1)" by (simp add: ledger1_def)
  have decodes: "\<forall>k v. fmlookup (world ledger_pair) k = Some v \<longrightarrow>
      (\<exists>a. Unmarshal sample_codec v = Inr a)"
    using pair_decodes by blast
  from C8_queries_over_absent_data [of empty_ledger sample_codec] empty
  have "GetAllAssets sample_codec empty_ledger = Inr []" by blast
  moreover from C8_queries_over_absent_data [of ledger1 sample_codec "''9990000005''"] unwritten
  have "GetAssetHistory sample_codec ledger1 ''9990000005'' = Inr []" by blast
  moreover from C8_queries_over_absent_data [of ledger_pair sample_codec] decodes
  have "\<exists>ks as. sorted_wrt (<) ks \<and> set ks = fmdom' (world ledger_pair) \<and>
      GetAllAssets sample_codec ledger_pair = Inr as \<and>
      map Inr as = map (ReadAsset sample_codec ledger_pair) ks" by blast
  ultimately show ?thesis by blast
qed

lemma keys_of_ledger_pair:
  "sorted_list_of_fset (fmdom (world ledger_pair)) = [''9990000005'', ''9990001111'']"
  by (simp add: ledger_pair_def ledger1_def sorted_list_of_fset.rep_eq)

lemma all_assets_of_ledger_pair: "GetAllAssets sample_codec ledger_pair = Inr [account3, account1]"
  unfolding GetAllAssets_def GetStateByRange_all keys_of_ledger_pair
  by (simp add: ledger_pair_def ledger1_def sample_codec_def table_codec_def document1_def
      document2_def document3_def)

lemma int64_bounds_accepted:
  "is_int64_literal ''-9223372036854775808''" "is_int64_literal ''9223372036854775807''"
  "is_int64_literal ''+7''" "is_int64_literal ''007''"
  by (simp_all add: is_int64_literal_def int_literal_def decimal_value_def is_digit_def byte_def)

lemma int64_bounds_rejected:
  "\<not> is_int64_literal ''-9223372036854775809''" "\<not> is_int64_literal ''9223372036854775808''"
  "\<not> is_int64_literal []" "\<not> is_int64_literal ''-''" "\<not> is_int64_literal ''1.5''"
  "\<not> is_int64_literal '' 1''" "\<not> is_int64_literal ''1_000''"
  by (simp_all add: is_int64_literal_def int_literal_def decimal_value_def is_digit_def byte_def)

theorem C4_invalid_amount_iff_witness:
  "(\<exists>e. snd (CreateAsset sample_codec tx1 empty_ledger ''D1'' ''9990001111'' ''1234'' ''abc''
             ''ACTIVE'' ''0'' ''NA'' ''init'') = Some e \<and> InvalidAmount e) \<and>
   fst (CreateAsset sample_codec tx1 empty_ledger ''D1'' ''9990001111'' ''1234'' ''abc''
          ''ACTIVE'' ''0'' ''NA'' ''init'') = empty_ledger \<and>
   (\<exists>e. snd (UpdateAsset sample_codec tx1 ledger1 ''D1'' ''9990001111'' ''1234'' ''abc''
             ''ACTIVE'' ''0'' ''NA'' ''init'') = Some e \<and> InvalidAmount e) \<and>
   fst (UpdateAsset sample_codec tx1 ledger1 ''D1'' ''9990001111'' ''1234'' ''abc''
          ''ACTIVE'' ''0'' ''NA'' ''init'') = ledger1 \<and>
   \<not> (\<exists>e. snd (UpdateAsset sample_codec tx2 ledger1 ''D2'' ''9990001111'' ''4321'' ''750''
             ''BLOCKED'' ''-250'' ''DEBIT'' ''topup'') = Some e \<and> InvalidAmount e)"
proof -
  have absent: "fmlookup (world empty_ledger) ''9990001111'' = None"
    by (simp add: empty_ledger_def)
  have present: "fmlookup (world ledger1) ''9990001111'' = Some document1"
    by (simp add: ledger1_def)
  have good: "is_int64_literal ''750''" "is_int64_literal ''-250''"
    using int_literal_750 int_literal_minus_250 unfolding is_int64_literal_iff by blast+
  from C4_invalid_amount_iff [OF absent present, of sample_codec tx1 "''D1''" "''1234''" "''abc''"
      "''ACTIVE''" "''0''" "''NA''" "''init''"] abc_not_literal
  have bad: "(\<exists>e. snd (CreateAsset sample_codec tx1 empty_ledger ''D1'' ''9990001111'' ''1234''
                 ''abc'' ''ACTIVE'' ''0'' ''NA'' ''init'') = Some e \<and> InvalidAmount e) \<and>
       fst (CreateAsset sample_codec tx1 empty_ledger ''D1'' ''9990001111'' ''1234'' ''abc''
              ''ACTIVE'' ''0'' ''NA'' ''init'') = empty_ledger \<and>
       (\<exists>e. snd (UpdateAsset sample_codec tx1 ledger1 ''D1'' ''9990001111'' ''1234'' ''abc''
                 ''ACTIVE'' ''0'' ''NA'' ''init'') = Some e \<and> InvalidAmount e) \<and>
       fst (UpdateAsset sample_codec tx1 ledger1 ''D1'' ''9990001111'' ''1234'' ''abc''
              ''ACTIVE'' ''0'' ''NA'' ''init'') = ledger1"
    by blast
  from C4_invalid_amount_iff [OF absent present, of sample_codec tx2 "''D2''" "''4321''" "''750''"
      "''BLOCKED''" "''-250''" "''DEBIT''" "''topup''"] good
  have "\<not> (\<exists>e. snd (UpdateAsset sample_codec tx2 ledger1 ''D2'' ''9990001111'' ''4321'' ''750''
             ''BLOCKED'' ''-250'' ''DEBIT'' ''topup'') = Some e \<and> InvalidAmount e)"
    by blast
  with bad show ?thesis by blast
qed

section \<open>The contract over encoding/json\<close>

text \<open>
  With \<open>encoding_json\<close> for the codec, a record that \<open>PutState\<close> has stored is read back as
  \<open>coerced\<close> of the record that was encoded. The stub takes every key but the empty one.
\<close>

lemma ParseInt_parsed:
  assumes "ParseInt s = Inr w"
  shows "parses_int64 s (sint w)"
proof -
  have "\<exists>n. parses_int64 s n" using ParseInt_rejects [of s] assms by auto
  then obtain n where n: "parses_int64 s n" ..
  with ParseInt_accepts [OF n] assms have "w = word_of_int n" by simp
  with sint_parsed [OF n] n show ?thesis by simp
qed

lemma written_then_read:
  assumes put: "PutState ctx l k raw = (l', None)" and enc: "Marshal encoding_json a = Inr raw"
  shows "ReadAsset encoding_json l' k = Inr (coerced a)"
proof -
  from put have "world l' = fmupd k raw (world l)" by (rule PutState_success)
  moreover from enc have "Unmarshal encoding_json raw = Inr (coerced a)"
    by (simp add: encoding_json_def Unmarshal_Marshal)
  ultimately show ?thesis by (simp add: ReadAsset_eq)
qed

lemma PutState_nonempty: "k \<noteq> [] \<Longrightarrow> \<exists>l'. PutState ctx l k raw = (l', None)"
  by (simp add: PutState_def)

lemma Marshal_json: "\<exists>raw. Marshal encoding_json a = Inr raw"
  by (simp add: encoding_json_def Marshal_Account_def)

lemma ValidString_ascii: "byte c < 128 \<Longrightarrow> ValidString (c # cs) = ValidString cs"
  by (simp add: DecodeRune_ascii RuneError_def del: DecodeRuneInString.simps)

lemma to_valid_utf8_ff: "to_valid_utf8 [CHR 0xFF] = [CHR 0xEF, CHR 0xBF, CHR 0xBD]"
proof -
  have "chr 239 = CHR 0xEF" "chr 191 = CHR 0xBF" "chr 189 = CHR 0xBD"
    by (rule chr_lit, simp add: byte_def)+
  then show ?thesis
    by (simp add: EncodeRune_def RuneError_def byte_def Let_def)
qed

lemma create_then_read:
  assumes absent: "fmlookup (world l) k = None"
    and key: "k \<noteq> []"
    and bal: "ParseInt b = Inr bal"
    and tamt: "ParseInt t = Inr tamt"
  shows "\<exists>l'. CreateAsset encoding_json ctx l d k p b s t y r = (l', None) \<and>
     ReadAsset encoding_json l' k =
       Inr (coerced \<lparr>DEALERID = d, MSISDN = k, MPIN = p, BALANCE = bal, STATUS = s,
                     TRANSAMOUNT = tamt, TRANSTYPE = y, REMARKS = r\<rparr>)"
proof -
  let ?a = "\<lparr>DEALERID = d, MSISDN = k, MPIN = p, BALANCE = bal, STATUS = s,
             TRANSAMOUNT = tamt, TRANSTYPE = y, REMARKS = r\<rparr>"
  obtain raw where enc: "Marshal encoding_json ?a = Inr raw" using Marshal_json by blast
  obtain l' where put: "PutState ctx l k raw = (l', None)"
    using PutState_nonempty [OF key] by blast
  have "CreateAsset encoding_json ctx l d k p b s t y r = (l', None)"
    by (simp add: CreateAsset_absent [OF absent] bal tamt enc put)
  with written_then_read [OF put enc] show ?thesis by blast
qed

lemma update_then_read:
  assumes present: "fmlookup (world l) k = Some old"
    and success: "UpdateAsset encoding_json ctx l d k p b s t y r = (l', None)"
  shows "\<exists>bal tamt. ParseInt b = Inr bal \<and> ParseInt t = Inr tamt \<and>
     ReadAsset encoding_json l' k =
       Inr (coerced \<lparr>DEALERID = d, MSISDN = k, MPIN = p, BALANCE = bal, STATUS = s,
                     TRANSAMOUNT = tamt, TRANSTYPE = y, REMARKS = r\<rparr>)"
proof -
  from success obtain bal tamt raw where bal: "ParseInt b = Inr bal"
    and tamt: "ParseInt t = Inr tamt"
    and enc: "Marshal encoding_json \<lparr>DEALERID = d, MSISDN = k, MPIN = p, BALANCE = bal,
        STATUS = s, TRANSAMOUNT = tamt, TRANSTYPE = y, REMARKS = r\<rparr> = Inr raw"
    and put: "PutState ctx l k raw = (l', None)"
    unfolding UpdateAsset_present [OF present] by (auto split: sum.splits)
  from written_then_read [OF put enc] bal tamt show ?thesis by blast
qed

lemma update_succeeds:
  assumes present: "fmlookup (world l) k = Some old"
    and key: "k \<noteq> []"
    and bal: "ParseInt b = Inr bal"
    and tamt: "ParseInt t = Inr tamt"
  shows "\<exists>l'. UpdateAsset encoding_json ctx l d k p b s t y r = (l', None)"
proof -
  let ?a = "\<lparr>DEALERID = d, MSISDN = k, MPIN = p, BALANCE = bal, STATUS = s,
             TRANSAMOUNT = tamt, TRANSTYPE = y, REMARKS = r\<rparr>"
  obtain raw where enc: "Marshal encoding_json ?a = Inr raw" using Marshal_json by blast
  obtain l' where put: "PutState ctx l k raw = (l', None)"
    using PutState_nonempty [OF key] by blast
  have "UpdateAsset encoding_json ctx l d k p b s t y r = (l', None)"
    by (simp add: UpdateAsset_present [OF present] bal tamt enc put)
  then show ?thesis ..
qed

lemma ValidString_samples:
  "ValidString ''D1''" "ValidString ''9990001111''" "ValidString ''1234''"
  "ValidString ''ACTIVE''" "ValidString ''NA''" "ValidString ''init''"
  "ValidString ''D2''" "ValidString ''4321''" "ValidString ''BLOCKED''"
  "ValidString ''DEBIT''" "ValidString ''topup''"
  by (simp_all add: ValidString_ascii byte_def del: ValidString.simps(2))

text \<open>
  Claim C1. When the ledger holds no record for \<open>subscriberID\<close>, the key is not the empty
  string, and the two amounts parse as base-10 64-bit integers \<open>bal\<close> and \<open>tamt\<close>,
  \<open>CreateAsset\<close> succeeds and \<open>ReadAsset\<close> on the resulting ledger returns a record whose
  \<open>BALANCE\<close> and \<open>TRANSAMOUNT\<close> are \<open>bal\<close> and \<open>tamt\<close> and whose string fields are the strings
  supplied, each byte that is no valid UTF-8 replaced by U+FFFD. When the six strings are
  valid UTF-8, the string fields are the strings supplied.
\<close>

theorem C1_create_then_read:
  assumes absent: "fmlookup (world l) subscriberID = None"
    and key: "subscriberID \<noteq> []"
    and bal: "parses_int64 balanceStr bal"
    and tamt: "parses_int64 transAmountStr tamt"
  shows "\<exists>l' a.
           CreateAsset encoding_json ctx l dealerID subscriberID pin balanceStr status
             transAmountStr transType remarks = (l', None) \<and>
           ReadAsset encoding_json l' subscriberID = Inr a \<and>
           DEALERID a = to_valid_utf8 dealerID \<and> MSISDN a = to_valid_utf8 subscriberID \<and>
           MPIN a = to_valid_utf8 pin \<and> sint (BALANCE a) = bal \<and>
           STATUS a = to_valid_utf8 status \<and> sint (TRANSAMOUNT a) = tamt \<and>
           TRANSTYPE a = to_valid_utf8 transType \<and> REMARKS a = to_valid_utf8 remarks \<and>
           (list_all ValidString [dealerID, subscriberID, pin, status, transType, remarks] \<longrightarrow>
              DEALERID a = dealerID \<and> MSISDN a = subscriberID \<and> MPIN a = pin \<and>
              STATUS a = status \<and> TRANSTYPE a = transType \<and> REMARKS a = remarks)"
proof -
  let ?a = "coerced \<lparr>DEALERID = dealerID, MSISDN = subscriberID, MPIN = pin,
             BALANCE = word_of_int bal, STATUS = status, TRANSAMOUNT = word_of_int tamt,
             TRANSTYPE = transType, REMARKS = remarks\<rparr>"
  from create_then_read [OF absent key ParseInt_accepts [OF bal] ParseInt_accepts [OF tamt]]
  obtain l' where
    "CreateAsset encoding_json ctx l dealerID subscriberID pin balanceStr status
       transAmountStr transType remarks = (l', None)"
    "ReadAsset encoding_json l' subscriberID = Inr ?a"
    by blast
  moreover have "sint (BALANCE ?a) = bal" "sint (TRANSAMOUNT ?a) = tamt"
    using sint_parsed [OF bal] sint_parsed [OF tamt] by (simp_all add: coerced_def)
  moreover have "DEALERID ?a = to_valid_utf8 dealerID" "MSISDN ?a = to_valid_utf8 subscriberID"
    "MPIN ?a = to_valid_utf8 pin" "STATUS ?a = to_valid_utf8 status"
    "TRANSTYPE ?a = to_valid_utf8 transType" "REMARKS ?a = to_valid_utf8 remarks"
    by (simp_all add: coerced_def)
  ultimately show ?thesis
    by (intro exI [of _ l'] exI [of _ ?a]) (simp add: to_valid_utf8_id)
qed

text \<open>
  Without the two restrictions the property fails. No record exists for the empty key, yet
  \<open>PutState\<close> refuses it and \<open>CreateAsset\<close> returns the stub's error; and a \<open>dealerID\<close> of the
  single byte \<open>0xFF\<close> is read back as the three bytes of U+FFFD.
\<close>

theorem C1_create_then_read_counterexample:
  "fmlookup (world empty_ledger) [] = None \<and>
   parses_int64 ''1000'' 1000 \<and> parses_int64 ''0'' 0 \<and>
   CreateAsset encoding_json tx1 empty_ledger ''D1'' [] ''1234'' ''1000'' ''ACTIVE'' ''0'' ''NA''
     ''init'' = (empty_ledger, Some (StubError ''key must not be an empty string'')) \<and>
   fmlookup (world empty_ledger) ''9990001111'' = None \<and>
   (\<exists>l' a.
      CreateAsset encoding_json tx1 empty_ledger [CHR 0xFF] ''9990001111'' ''1234'' ''1000''
        ''ACTIVE'' ''0'' ''NA'' ''init'' = (l', None) \<and>
      ReadAsset encoding_json l' ''9990001111'' = Inr a \<and>
      DEALERID a = [CHR 0xEF, CHR 0xBF, CHR 0xBD] \<and> DEALERID a \<noteq> [CHR 0xFF])"
proof -
  have absent: "fmlookup (world empty_ledger) k = None" for k
    by (simp add: empty_ledger_def)
  have b: "ParseInt ''1000'' = Inr 1000" and t: "ParseInt ''0'' = Inr 0"
    using ParseInt_accepts [OF int_literal_1000] ParseInt_accepts [OF int_literal_0] by simp_all
  obtain raw where enc: "Marshal encoding_json \<lparr>DEALERID = ''D1'', MSISDN = [], MPIN = ''1234'',
      BALANCE = 1000, STATUS = ''ACTIVE'', TRANSAMOUNT = 0, TRANSTYPE = ''NA'',
      REMARKS = ''init''\<rparr> = Inr raw"
    using Marshal_json by blast
  have empty_key: "CreateAsset encoding_json tx1 empty_ledger ''D1'' [] ''1234'' ''1000''
      ''ACTIVE'' ''0'' ''NA'' ''init'' =
      (empty_ledger, Some (StubError ''key must not be an empty string''))"
    by (simp add: CreateAsset_absent [OF absent] b t enc PutState_def)
  from create_then_read [OF absent _ b t, of "''9990001111''" tx1 "[CHR 0xFF]" "''1234''"
      "''ACTIVE''" "''NA''" "''init''"]
  obtain l' where "CreateAsset encoding_json tx1 empty_ledger [CHR 0xFF] ''9990001111'' ''1234''
      ''1000'' ''ACTIVE'' ''0'' ''NA'' ''init'' = (l', None)"
    and "ReadAsset encoding_json l' ''9990001111'' =
      Inr (coerced \<lparr>DEALERID = [CHR 0xFF], MSISDN = ''9990001111'', MPIN = ''1234'',
        BALANCE = 1000, STATUS = ''ACTIVE'', TRANSAMOUNT = 0, TRANSTYPE = ''NA'',
        REMARKS = ''init''\<rparr>)"
    by auto
  moreover have "DEALERID (coerced \<lparr>DEALERID = [CHR 0xFF], MSISDN = ''9990001111'',
      MPIN = ''1234'', BALANCE = 1000, STATUS = ''ACTIVE'', TRANSAMOUNT = 0, TRANSTYPE = ''NA'',
      REMARKS = ''init''\<rparr>) = [CHR 0xEF, CHR 0xBF, CHR 0xBD]"
    by (simp only: coerced_def Account.simps to_valid_utf8_ff)
  ultimately have "\<exists>l' a.
      CreateAsset encoding_json tx1 empty_ledger [CHR 0xFF] ''9990001111'' ''1234'' ''1000''
        ''ACTIVE'' ''0'' ''NA'' ''init'' = (l', None) \<and>
      ReadAsset encoding_json l' ''9990001111'' = Inr a \<and>
      DEALERID a = [CHR 0xEF, CHR 0xBF, CHR 0xBD] \<and> DEALERID a \<noteq> [CHR 0xFF]"
    by (metis list.inject list.distinct(1))
  with absent empty_key int_literal_1000 int_literal_0 show ?thesis by blast
qed

theorem C1_create_then_read_witness:
  "\<exists>l' a.
     CreateAsset encoding_json tx1 empty_ledger ''D1'' ''9990001111'' ''1234'' ''1000'' ''ACTIVE''
       ''0'' ''NA'' ''init'' = (l', None) \<and>
     ReadAsset encoding_json l' ''9990001111'' = Inr a \<and>
     DEALERID a = ''D1'' \<and> MSISDN a = ''9990001111'' \<and> MPIN a = ''1234'' \<and>
     sint (BALANCE a) = 1000 \<and> STATUS a = ''ACTIVE'' \<and> sint (TRANSAMOUNT a) = 0 \<and>
     TRANSTYPE a = ''NA'' \<and> REMARKS a = ''init''"
proof -
  have absent: "fmlookup (world empty_ledger) ''9990001111'' = None"
    by (simp add: empty_ledger_def)
  have key: "''9990001111'' \<noteq> []" by simp
  have valid: "list_all ValidString [''D1'', ''9990001111'', ''1234'', ''ACTIVE'', ''NA'', ''init'']"
    using ValidString_samples by simp
  from C1_create_then_read [OF absent key int_literal_1000 int_literal_0, of tx1 "''D1''"
      "''1234''" "''ACTIVE''" "''NA''" "''init''"] valid
  show ?thesis by blast
qed

text \<open>
  Claim C5. When the ledger holds a record for \<open>subscriberID\<close>, whatever it is, and
  \<open>UpdateAsset\<close> succeeds, the two amounts parse as base-10 64-bit integers and the record read
  back afterwards has every one of its eight fields determined by the arguments alone:
  \<open>BALANCE\<close> and \<open>TRANSAMOUNT\<close> are the parsed amounts, and each string field is the string
  supplied with every byte that is no valid UTF-8 replaced by U+FFFD, hence the string
  supplied when that is valid UTF-8. The old record \<open>old\<close> contributes nothing.
\<close>

theorem C5_update_overwrites:
  assumes present: "fmlookup (world l) subscriberID = Some old"
    and success: "UpdateAsset encoding_json ctx l dealerID subscriberID pin balanceStr status
                    transAmountStr transType remarks = (l', None)"
  shows "\<exists>a bal tamt.
           parses_int64 balanceStr bal \<and> parses_int64 transAmountStr tamt \<and>
           ReadAsset encoding_json l' subscriberID = Inr a \<and>
           DEALERID a = to_valid_utf8 dealerID \<and> MSISDN a = to_valid_utf8 subscriberID \<and>
           MPIN a = to_valid_utf8 pin \<and> sint (BALANCE a) = bal \<and>
           STATUS a = to_valid_utf8 status \<and> sint (TRANSAMOUNT a) = tamt \<and>
           TRANSTYPE a = to_valid_utf8 transType \<and> REMARKS a = to_valid_utf8 remarks \<and>
           (list_all ValidString [dealerID, subscriberID, pin, status, transType, remarks] \<longrightarrow>
              DEALERID a = dealerID \<and> MSISDN a = subscriberID \<and> MPIN a = pin \<and>
              STATUS a = status \<and> TRANSTYPE a = transType \<and> REMARKS a = remarks)"
proof -
  from update_then_read [OF present success] obtain wb wt
    where wb: "ParseInt balanceStr = Inr wb" and wt: "ParseInt transAmountStr = Inr wt"
      and read: "ReadAsset encoding_json l' subscriberID =
        Inr (coerced \<lparr>DEALERID = dealerID, MSISDN = subscriberID, MPIN = pin, BALANCE = wb,
                      STATUS = status, TRANSAMOUNT = wt, TRANSTYPE = transType,
                      REMARKS = remarks\<rparr>)"
    by blast
  let ?a = "coerced \<lparr>DEALERID = dealerID, MSISDN = subscriberID, MPIN = pin, BALANCE = wb,
                     STATUS = status, TRANSAMOUNT = wt, TRANSTYPE = transType,
                     REMARKS = remarks\<rparr>"
  have "parses_int64 balanceStr (sint (BALANCE ?a))"
    "parses_int64 transAmountStr (sint (TRANSAMOUNT ?a))"
    using ParseInt_parsed [OF wb] ParseInt_parsed [OF wt] by (simp_all add: coerced_def)
  moreover have "DEALERID ?a = to_valid_utf8 dealerID" "MSISDN ?a = to_valid_utf8 subscriberID"
    "MPIN ?a = to_valid_utf8 pin" "STATUS ?a = to_valid_utf8 status"
    "TRANSTYPE ?a = to_valid_utf8 transType" "REMARKS ?a = to_valid_utf8 remarks"
    by (simp_all add: coerced_def)
  ultimately show ?thesis
    using read
    by (intro exI [of _ ?a] exI [of _ "sint (BALANCE ?a)"] exI [of _ "sint (TRANSAMOUNT ?a)"])
      (simp add: to_valid_utf8_id)
qed

text \<open>
  A field need not equal its argument: an update with a \<open>dealerID\<close> of the single byte \<open>0xFF\<close>
  succeeds, and the record read back holds the three bytes of U+FFFD there.
\<close>

theorem C5_update_overwrites_counterexample:
  "fmlookup (world ledger1) ''9990001111'' = Some document1 \<and>
   (\<exists>l' a.
      UpdateAsset encoding_json tx2 ledger1 [CHR 0xFF] ''9990001111'' ''4321'' ''750'' ''BLOCKED''
        ''-250'' ''DEBIT'' ''topup'' = (l', None) \<and>
      ReadAsset encoding_json l' ''9990001111'' = Inr a \<and>
      DEALERID a = [CHR 0xEF, CHR 0xBF, CHR 0xBD] \<and> DEALERID a \<noteq> [CHR 0xFF])"
proof -
  have present: "fmlookup (world ledger1) ''9990001111'' = Some document1"
    by (simp add: ledger1_def)
  have key: "''9990001111'' \<noteq> []" by simp
  from update_succeeds [OF present key ParseInt_750 ParseInt_minus_250]
  obtain l' where success: "UpdateAsset encoding_json tx2 ledger1 [CHR 0xFF] ''9990001111''
      ''4321'' ''750'' ''BLOCKED'' ''-250'' ''DEBIT'' ''topup'' = (l', None)"
    by blast
  from update_then_read [OF present success] obtain wb wt
    where "ReadAsset encoding_json l' ''9990001111'' =
      Inr (coerced \<lparr>DEALERID = [CHR 0xFF], MSISDN = ''9990001111'', MPIN = ''4321'',
        BALANCE = wb, STATUS = ''BLOCKED'', TRANSAMOUNT = wt, TRANSTYPE = ''DEBIT'',
        REMARKS = ''topup''\<rparr>)"
    by blast
  moreover have "DEALERID (coerced \<lparr>DEALERID = [CHR 0xFF], MSISDN = ''9990001111'',
      MPIN = ''4321'', BALANCE = wb, STATUS = ''BLOCKED'', TRANSAMOUNT = wt,
      TRANSTYPE = ''DEBIT'', REMARKS = ''topup''\<rparr>) = [CHR 0xEF, CHR 0xBF, CHR 0xBD]"
    by (simp only: coerced_def Account.simps to_valid_utf8_ff)
  ultimately show ?thesis using present success
    by (metis list.inject list.distinct(1))
qed

theorem C5_update_overwrites_witness:
  "\<exists>l' a.
     UpdateAsset encoding_json tx2 ledger1 ''D2'' ''9990001111'' ''4321'' ''750'' ''BLOCKED''
       ''-250'' ''DEBIT'' ''topup'' = (l', None) \<and>
     ReadAsset encoding_json l' ''9990001111'' = Inr a \<and>
     DEALERID a = ''D2'' \<and> MSISDN a = ''9990001111'' \<and> MPIN a = ''4321'' \<and>
     sint (BALANCE a) = 750 \<and> STATUS a = ''BLOCKED'' \<and> sint (TRANSAMOUNT a) = - 250 \<and>
     TRANSTYPE a = ''DEBIT'' \<and> REMARKS a = ''topup''"
proof -
  have present: "fmlookup (world ledger1) ''9990001111'' = Some document1"
    by (simp add: ledger1_def)
  have key: "''9990001111'' \<noteq> []" by simp
  from update_succeeds [OF present key ParseInt_750 ParseInt_minus_250]
  obtain l' where success: "UpdateAsset encoding_json tx2 ledger1 ''D2'' ''9990001111''
      ''4321'' ''750'' ''BLOCKED'' ''-250'' ''DEBIT'' ''topup'' = (l', None)"
    by blast
  have valid: "list_all ValidString
      [''D2'', ''9990001111'', ''4321'', ''BLOCKED'', ''DEBIT'', ''topup'']"
    using ValidString_samples by simp
  from C5_update_overwrites [OF present success] obtain a bal tamt
    where b: "parses_int64 ''750'' bal" and t: "parses_int64 ''-250'' tamt"
      and read: "ReadAsset encoding_json l' ''9990001111'' = Inr a"
      and ints: "sint (BALANCE a) = bal" "sint (TRANSAMOUNT a) = tamt"
      and strs: "DEALERID a = ''D2''" "MSISDN a = ''9990001111''" "MPIN a = ''4321''"
        "STATUS a = ''BLOCKED''" "TRANSTYPE a = ''DEBIT''" "REMARKS a = ''topup''"
    using valid by blast
  from b int_literal_750 have "bal = 750" by (simp add: parses_int64_def)
  moreover from t int_literal_minus_250 have "tamt = - 250" by (simp add: parses_int64_def)
  ultimately show ?thesis using success read ints strs by blast
qed




text \<open>The sample documents are what the encoder writes for the sample records.\<close>

lemma escape_runes_safe: "htmlSafe c \<Longrightarrow> escape_runes (c # cs) = c # escape_runes cs"
  by (simp add: htmlSafe_def)

lemma chr_digits:
  "chr 48 = CHR ''0''" "chr 49 = CHR ''1''" "chr 50 = CHR ''2''" "chr 51 = CHR ''3''"
  "chr 52 = CHR ''4''" "chr 53 = CHR ''5''" "chr 54 = CHR ''6''" "chr 55 = CHR ''7''"
  "chr 56 = CHR ''8''" "chr 57 = CHR ''9''"
  by (rule chr_lit, simp add: byte_def)+

lemma appendString_samples:
  "appendString ''D1'' = [CHR 0x22] @ ''D1'' @ [CHR 0x22]"
  "appendString ''D2'' = [CHR 0x22] @ ''D2'' @ [CHR 0x22]"
  "appendString ''D3'' = [CHR 0x22] @ ''D3'' @ [CHR 0x22]"
  "appendString ''9990001111'' = [CHR 0x22] @ ''9990001111'' @ [CHR 0x22]"
  "appendString ''9990000005'' = [CHR 0x22] @ ''9990000005'' @ [CHR 0x22]"
  "appendString ''1234'' = [CHR 0x22] @ ''1234'' @ [CHR 0x22]"
  "appendString ''4321'' = [CHR 0x22] @ ''4321'' @ [CHR 0x22]"
  "appendString ''0000'' = [CHR 0x22] @ ''0000'' @ [CHR 0x22]"
  "appendString ''ACTIVE'' = [CHR 0x22] @ ''ACTIVE'' @ [CHR 0x22]"
  "appendString ''BLOCKED'' = [CHR 0x22] @ ''BLOCKED'' @ [CHR 0x22]"
  "appendString ''NA'' = [CHR 0x22] @ ''NA'' @ [CHR 0x22]"
  "appendString ''DEBIT'' = [CHR 0x22] @ ''DEBIT'' @ [CHR 0x22]"
  "appendString ''CREDIT'' = [CHR 0x22] @ ''CREDIT'' @ [CHR 0x22]"
  "appendString ''init'' = [CHR 0x22] @ ''init'' @ [CHR 0x22]"
  "appendString ''topup'' = [CHR 0x22] @ ''topup'' @ [CHR 0x22]"
  "appendString [] = [CHR 0x22, CHR 0x22]"
  by (simp_all add: appendString_def escape_runes_safe htmlSafe_def byte_def
      del: escape_runes.simps(2))

lemma FormatInt_samples:
  "FormatInt 1000 = ''1000''" "FormatInt 0 = ''0''" "FormatInt 750 = ''750''"
  "FormatInt (- 250) = ''-250''" "FormatInt 20 = ''20''"
proof -
  have "digits 1000 = ''1000''" "digits 750 = ''750''" "digits 250 = ''250''"
    "digits 20 = ''20''"
    by (simp_all add: digits_rec digits_small chr_digits)
  then show "FormatInt 1000 = ''1000''" "FormatInt 750 = ''750''"
    "FormatInt (- 250) = ''-250''" "FormatInt 20 = ''20''"
    by (simp_all add: FormatInt_def)
  show "FormatInt 0 = ''0''" by (simp add: FormatInt_def digits_0)
qed

lemma sample_documents:
  "Marshal encoding_json account1 = Inr document1"
  "Marshal encoding_json account2 = Inr document2"
  "Marshal encoding_json account3 = Inr document3"
  by (simp_all add: encoding_json_def Marshal_Account_def account1_def account2_def account3_def
      document1_def document2_def document3_def appendString_samples FormatInt_samples)

end
